theory Spec2Isabelle
  imports Complex_Main
begin

section \<open>Rigid transforms\<close>

text \<open>
  The simulator's \<^verbatim>\<open>Vec3\<close>, \<^verbatim>\<open>Quat\<close> (stored as x, y, z, w) and \<^verbatim>\<open>Transform\<close>
  (fields \<^verbatim>\<open>p\<close> and \<^verbatim>\<open>r\<close>). Floating-point numbers are idealised as reals.
\<close>

record vec3 =
  vx :: real
  vy :: real
  vz :: real

record quat =
  qx :: real
  qy :: real
  qz :: real
  qw :: real

record transform =
  t_p :: vec3
  t_r :: quat

definition vec3_add :: "vec3 \<Rightarrow> vec3 \<Rightarrow> vec3" where
  \<comment> \<open>\<^verbatim>\<open>Vec3.__add__\<close>\<close>
  "vec3_add a b = \<lparr>vx = vx a + vx b, vy = vy a + vy b, vz = vz a + vz b\<rparr>"

definition cross :: "vec3 \<Rightarrow> vec3 \<Rightarrow> vec3" where
  "cross a b = \<lparr>vx = vy a * vz b - vz a * vy b,
                vy = vz a * vx b - vx a * vz b,
                vz = vx a * vy b - vy a * vx b\<rparr>"

definition quat_mul :: "quat \<Rightarrow> quat \<Rightarrow> quat" where
  \<comment> \<open>\<^verbatim>\<open>Quat.__mul__\<close>: the Hamilton product, left factor applied last.\<close>
  "quat_mul a b =
     \<lparr>qx = qw a * qx b + qx a * qw b + qy a * qz b - qz a * qy b,
      qy = qw a * qy b - qx a * qz b + qy a * qw b + qz a * qx b,
      qz = qw a * qz b + qx a * qy b - qy a * qx b + qz a * qw b,
      qw = qw a * qw b - qx a * qx b - qy a * qy b - qz a * qz b\<rparr>"

definition quat_norm :: "quat \<Rightarrow> real" where
  "quat_norm q = sqrt (qx q * qx q + qy q * qy q + qz q * qz q + qw q * qw q)"

definition quat_normalize :: "quat \<Rightarrow> quat" where
  \<comment> \<open>\<^verbatim>\<open>Quat.normalize\<close>\<close>
  "quat_normalize q =
     \<lparr>qx = qx q / quat_norm q, qy = qy q / quat_norm q,
      qz = qz q / quat_norm q, qw = qw q / quat_norm q\<rparr>"

definition quat_rotate :: "quat \<Rightarrow> vec3 \<Rightarrow> vec3" where
  \<comment> \<open>\<^verbatim>\<open>Quat.rotate\<close>: \<open>v + w t + u \<times> t\<close> with \<open>u\<close> the vector part and \<open>t = 2 (u \<times> v)\<close>.\<close>
  "quat_rotate q v =
     (let u = \<lparr>vx = qx q, vy = qy q, vz = qz q\<rparr>;
          c = cross u v;
          t = \<lparr>vx = 2 * vx c, vy = 2 * vy c, vz = 2 * vz c\<rparr>;
          d = cross u t
      in \<lparr>vx = vx v + qw q * vx t + vx d,
          vy = vy v + qw q * vy t + vy d,
          vz = vz v + qw q * vz t + vz d\<rparr>)"

definition from_euler_z :: "real \<Rightarrow> quat" where
  \<comment> \<open>\<^verbatim>\<open>R.from_euler('z', yaw, degrees=False).as_quat()\<close>, repacked as a \<^verbatim>\<open>Quat\<close>.\<close>
  "from_euler_z yaw = \<lparr>qx = 0, qy = 0, qz = sin (yaw / 2), qw = cos (yaw / 2)\<rparr>"

definition quat_identity :: quat where
  "quat_identity = \<lparr>qx = 0, qy = 0, qz = 0, qw = 1\<rparr>"

section \<open>Random numbers\<close>

text \<open>
  The generator is outside the program. Its output is a parameter: \<open>gen k\<close> is the
  \<open>k\<close>-th unit sample it hands out, and every function that draws returns the position
  of the next unused sample.
\<close>

type_synonym rng = "nat \<Rightarrow> real"

definition uniform :: "real \<Rightarrow> real \<Rightarrow> real \<Rightarrow> real" where
  \<comment> \<open>\<^verbatim>\<open>np.random.uniform(low, high)\<close> on the unit sample \<open>u\<close>\<close>
  "uniform low high u = low + (high - low) * u"

section \<open>Pose randomizer (\<^verbatim>\<open>reset_env\<close>)\<close>

definition draw_p_random :: "real \<Rightarrow> rng \<Rightarrow> nat \<Rightarrow> vec3 \<times> nat" where
  "draw_p_random rand_range gen k =
     (\<lparr>vx = uniform (- rand_range) rand_range (gen k),
       vy = uniform (- rand_range) rand_range (gen (k + 1)),
       vz = 0.0021\<rparr>, k + 2)"


definition sentinel_a :: real where
  \<comment> \<open>the number that the literal \<^verbatim>\<open>-0.706636\<close> denotes\<close>
  "sentinel_a = - (1591202813143289 / 2 ^ 51)"

definition sentinel_b :: real where
  \<comment> \<open>the number that the literal \<^verbatim>\<open>0.000685\<close> denotes\<close>
  "sentinel_b = 6318009845245521 / 2 ^ 63"

definition draw_yaw :: "quat \<Rightarrow> rng \<Rightarrow> nat \<Rightarrow> real \<times> nat" where
  \<comment> \<open>The branch for the two symmetric poses assigns \<^verbatim>\<open>q_random\<close>, and the statement
      after it, which is not under an \<^verbatim>\<open>else\<close>, assigns it again.\<close>
  "draw_yaw q_stable gen k =
     (let (first_yaw, k1) =
            (if qw q_stable = sentinel_a \<or> qw q_stable = sentinel_b
             then (Some (uniform 0 (pi / 2) (gen k)), k + 1)
             else (None, k))
      in (uniform 0 (2 * pi) (gen k1), k1 + 1))"

definition compose :: "vec3 \<Rightarrow> quat \<Rightarrow> vec3 \<Rightarrow> quat \<Rightarrow> transform" where
  "compose p_stable q_stable p_random q_random =
     (let p = vec3_add (quat_rotate q_random p_stable) p_random;
          q = quat_normalize (quat_mul q_random q_stable)
      in \<lparr>t_p = p, t_r = q\<rparr>)"

definition reset_pose :: "real \<Rightarrow> transform \<Rightarrow> rng \<Rightarrow> nat \<Rightarrow> transform \<times> nat" where
  \<comment> \<open>one pass of the loop body, up to the new transform\<close>
  "reset_pose rand_range t_stable gen k =
     (let p_stable = t_p t_stable;
          q_stable = t_r t_stable;
          (p_random, k1) = draw_p_random rand_range gen k;
          (yaw, k2) = draw_yaw q_stable gen k1;
          q_random = from_euler_z yaw
      in (compose p_stable q_stable p_random q_random, k2))"

definition pose_type_conversion1 :: "transform \<Rightarrow> real list" where
  "pose_type_conversion1 object_pose =
     (let p = t_p object_pose; q = t_r object_pose
      in [vx p, vy p, vz p, qx q, qy q, qz q, qw q])"

definition pose_type_conversion :: "transform list \<Rightarrow> real list list" where
  "pose_type_conversion object_poses = map pose_type_conversion1 object_poses"

section \<open>Errors and the program's calls to the engine and the file system\<close>

datatype error = ValueError | IndexError | NameError string

datatype image_kind = IMAGE_DEPTH | IMAGE_SEGMENTATION

datatype artifact =
    DepthImage nat          \<comment> \<open>\<^verbatim>\<open>depth_images[env_idx]\<close>\<close>
  | SegMask nat             \<comment> \<open>\<^verbatim>\<open>segmasks[env_idx]\<close>\<close>
  | PoseVector "real list"  \<comment> \<open>\<^verbatim>\<open>object_poses[env_idx]\<close>\<close>

datatype event =
    CreateEnv nat
  | CreateActor nat transform
  | SetSegmentationId nat
  | CreateCameraSensor nat int int real
  | SetCameraTransform nat
  | SetRigidTransform nat transform
  | SetRigidLinearVelocity nat
  | SetRigidAngularVelocity nat
  | DisableGravity nat
  | ClearLines
  | Simulate
  | FetchResults
  | StepGraphics
  | DrawViewer
  | RenderAllCameraSensors
  | GetCameraImage nat image_kind
  | MakeDirs string
  | SaveArray string artifact

text \<open>
  A function with effects returns its outcome together with the calls it made, in
  order, up to its return or up to the exception.
\<close>

type_synonym 'a outcome = "(error + 'a) \<times> event list"

section \<open>Stable-pose catalog\<close>

definition bool_index :: "'a list \<Rightarrow> bool list \<Rightarrow> 'a list" where
  \<comment> \<open>\<^verbatim>\<open>a[mask]\<close> for a boolean mask of the length of \<open>a\<close>\<close>
  "bool_index a keep = map fst (filter snd (zip a keep))"

definition slice_to :: "'a list \<Rightarrow> int \<Rightarrow> 'a list" where
  \<comment> \<open>\<^verbatim>\<open>a[:stop]\<close>: a negative \<open>stop\<close> counts from the end\<close>
  "slice_to a stop =
     (if 0 \<le> stop then take (nat stop) a else take (nat (int (length a) + stop)) a)"

definition filter_catalog ::
  "real \<Rightarrow> int \<Rightarrow> real list \<Rightarrow> 'm list \<Rightarrow> real list \<times> 'm list" where
  \<comment> \<open>The three statements after the two arrays are loaded; the result is
      \<^verbatim>\<open>(self.object_stable_prob, object_stable_poses)\<close>. Where the sum is 0 the
      quotient in the source is not a number, so the quotient is used here only under
      a non-zero sum.\<close>
  "filter_catalog min_stable_pose_prob max_num_stable_pose object_stable_prob object_stable_poses =
     (let kept = slice_to (bool_index object_stable_prob
                             (map (\<lambda>pr. pr > min_stable_pose_prob) object_stable_prob))
                          max_num_stable_pose;
          normalized = map (\<lambda>pr. pr / sum_list kept) kept;
          poses = slice_to object_stable_poses (int (length kept))
      in (normalized, poses))"

section \<open>Camera model\<close>

record intrinsics =
  fx :: real
  fy :: real
  cx :: real
  cy :: real

definition py_int :: "real \<Rightarrow> int" where
  \<comment> \<open>\<^verbatim>\<open>int(x)\<close> on a float: the fraction is cut off, towards zero\<close>
  "py_int x = (if 0 \<le> x then \<lfloor>x\<rfloor> else \<lceil>x\<rceil>)"

definition arctan2 :: "real \<Rightarrow> real \<Rightarrow> real" where
  \<comment> \<open>\<^verbatim>\<open>np.arctan2(y, x)\<close>: the angle of the point \<open>(x, y)\<close>, in \<open>(-\<pi>, \<pi>]\<close>\<close>
  "arctan2 y x =
     (if 0 < x then arctan (y / x)
      else if x < 0 then (if 0 \<le> y then arctan (y / x) + pi else arctan (y / x) - pi)
      else if 0 < y then pi / 2
      else if y < 0 then - (pi / 2)
      else 0)"

definition camera_width :: "intrinsics \<Rightarrow> int" where
  "camera_width m = py_int (cx m * 2.0)"

definition camera_height :: "intrinsics \<Rightarrow> int" where
  "camera_height m = py_int (cy m * 2.0)"

definition horizontal_fov :: "intrinsics \<Rightarrow> real" where
  "horizontal_fov m = 2 * arctan2 (cx m) (fx m) * 180 / pi"

section \<open>The generator object (\<^verbatim>\<open>DataGenEnv\<close>)\<close>

text \<open>
  The fields of \<^verbatim>\<open>self\<close> that the pose and capture pipeline reads or writes.
  Environment handles are the environment indices.
\<close>

record datagen =
  num_envs :: nat
  num_iters :: nat
  save_results :: bool
  headless :: bool
  FILE_ZERO_PADDING_NUM :: nat
  object_rand_pose_range :: real
  min_stable_pose_prob :: real
  max_num_stable_pose :: int
  camera_matrix :: intrinsics
  save_dir :: string
  object_stable_prob :: "real list"
  object_stable_poses :: "transform list"
  envs :: "nat list"
  cur_object_stable_poses :: "transform list"

definition get_item :: "'a list \<Rightarrow> nat \<Rightarrow> error + 'a" where
  \<comment> \<open>\<^verbatim>\<open>xs[i]\<close> for an index that is not negative\<close>
  "get_item xs i = (if i < length xs then Inr (xs ! i) else Inl IndexError)"

section \<open>Scene set (\<^verbatim>\<open>_create_envs\<close>)\<close>

definition randint :: "nat \<Rightarrow> nat \<Rightarrow> error + nat" where
  \<comment> \<open>\<^verbatim>\<open>np.random.randint(high)\<close> on the raw integer sample \<open>raw\<close>: it raises when
      nothing lies below \<open>high\<close>\<close>
  "randint high raw = (if high = 0 then Inl ValueError else Inr (raw mod high))"

fun create_envs_loop ::
  "(nat \<Rightarrow> nat) \<Rightarrow> nat list \<Rightarrow> datagen \<Rightarrow> nat \<Rightarrow> (datagen \<times> nat) outcome" where
  "create_envs_loop igen [] self k = (Inr (self, k), [])"
| "create_envs_loop igen (env_idx # rest) self k =
     (case randint (length (object_stable_poses self)) (igen k) of
        Inl e \<Rightarrow> (Inl e, [CreateEnv env_idx])
      | Inr r \<Rightarrow>
          (let object_pose = object_stable_poses self ! r;
               calls = [CreateEnv env_idx,
                        CreateActor env_idx object_pose,
                        SetSegmentationId env_idx,
                        CreateCameraSensor env_idx
                          (camera_width (camera_matrix self))
                          (camera_height (camera_matrix self))
                          (horizontal_fov (camera_matrix self)),
                        SetCameraTransform env_idx];
               self' = self\<lparr>envs := envs self @ [env_idx],
                             cur_object_stable_poses :=
                               cur_object_stable_poses self @ [object_pose]\<rparr>
           in case create_envs_loop igen rest self' (k + 1) of
                (res, later) \<Rightarrow> (res, calls @ later)))"

definition create_envs ::
  "datagen \<Rightarrow> real list \<Rightarrow> 'm list \<Rightarrow> ('m \<Rightarrow> transform) \<Rightarrow> (nat \<Rightarrow> nat) \<Rightarrow> nat
     \<Rightarrow> (datagen \<times> nat) outcome" where
  \<comment> \<open>\<open>stable_prob\<close> and \<open>stable_poses\<close> are the two loaded arrays, \<open>as_transform\<close> turns
      a 4x4 matrix into a \<^verbatim>\<open>Transform\<close>, \<open>igen k\<close> is the \<open>k\<close>-th raw integer sample.\<close>
  "create_envs self stable_prob stable_poses as_transform igen k =
     (let (prob, poses) = filter_catalog (min_stable_pose_prob self) (max_num_stable_pose self)
                            stable_prob stable_poses;
          self1 = self\<lparr>object_stable_prob := prob,
                        object_stable_poses := map as_transform poses,
                        cur_object_stable_poses := []\<rparr>
      in create_envs_loop igen [0..<num_envs self] self1 k)"

definition DataGenEnv ::
  "datagen \<Rightarrow> real list \<Rightarrow> 'm list \<Rightarrow> ('m \<Rightarrow> transform) \<Rightarrow> (nat \<Rightarrow> nat)
     \<Rightarrow> (datagen \<times> nat) outcome" where
  \<comment> \<open>\<^verbatim>\<open>__init__\<close>: \<open>cfg\<close> holds the fields read from the configuration; the handle
      lists start empty and the scene is built.\<close>
  "DataGenEnv cfg stable_prob stable_poses as_transform igen =
     create_envs (cfg\<lparr>envs := []\<rparr>) stable_prob stable_poses as_transform igen 0"

definition index_mass :: "nat \<Rightarrow> nat \<Rightarrow> real" where
  \<comment> \<open>The probability that \<^verbatim>\<open>np.random.randint(n)\<close> selects index \<open>i\<close>, the raw
      sample being equally likely to be each of \<open>0, \<dots>, n - 1\<close>.\<close>
  "index_mass n i = real (length (filter (\<lambda>raw. randint n raw = Inr i) [0..<n])) / real n"

section \<open>Pose randomizer over all environments\<close>

fun reset_env_loop ::
  "datagen \<Rightarrow> rng \<Rightarrow> nat list \<Rightarrow> nat \<Rightarrow> (transform list \<times> nat) outcome" where
  "reset_env_loop self gen [] k = (Inr ([], k), [])"
| "reset_env_loop self gen (env_idx # rest) k =
     (case get_item (envs self) env_idx of
        Inl e \<Rightarrow> (Inl e, [])
      | Inr env \<Rightarrow>
     (case get_item (cur_object_stable_poses self) env_idx of
        Inl e \<Rightarrow> (Inl e, [])
      | Inr t_stable \<Rightarrow>
          (let (t, k1) = reset_pose (object_rand_pose_range self) t_stable gen k;
               calls = [SetRigidTransform env t,
                        SetRigidLinearVelocity env,
                        SetRigidAngularVelocity env,
                        DisableGravity env]
           in case reset_env_loop self gen rest k1 of
                (Inl e, later) \<Rightarrow> (Inl e, calls @ later)
              | (Inr (ts, k2), later) \<Rightarrow> (Inr (t # ts, k2), calls @ later))))"

definition reset_env :: "datagen \<Rightarrow> rng \<Rightarrow> nat \<Rightarrow> (transform list \<times> nat) outcome" where
  "reset_env self gen k =
     (case reset_env_loop self gen [0..<num_envs self] k of
        (Inl e, calls) \<Rightarrow> (Inl e, calls)
      | (Inr res, calls) \<Rightarrow> (Inr res, calls @ (if \<not> headless self then [ClearLines] else [])))"

section \<open>Capture and export (\<^verbatim>\<open>step\<close>)\<close>

definition digit_char :: "nat \<Rightarrow> char" where
  "digit_char d = char_of (48 + d)"

fun str_nat :: "nat \<Rightarrow> string" where
  \<comment> \<open>the decimal digits of a number that is not negative\<close>
  "str_nat n = (if n < 10 then [digit_char n]
                else str_nat (n div 10) @ [digit_char (n mod 10)])"

declare str_nat.simps [simp del]

definition format_0d :: "nat \<Rightarrow> nat \<Rightarrow> string" where
  \<comment> \<open>\<^verbatim>\<open>("%0" + str(width) + "d") % n\<close> for \<open>n\<close> not negative\<close>
  "format_0d width n = replicate (width - length (str_nat n)) CHR ''0'' @ str_nat n"

definition sample_name :: "nat \<Rightarrow> nat \<Rightarrow> string" where
  "sample_name width n = ''_'' @ format_0d width n @ ''.npy''"

definition data_path :: "string \<Rightarrow> string \<Rightarrow> string" where
  \<comment> \<open>\<^verbatim>\<open>os.path.join(self.save_dir, 'data', file)\<close>\<close>
  "data_path dir file = dir @ ''/data/'' @ file"

definition get_camera_image :: "datagen \<Rightarrow> event list" where
  "get_camera_image self =
     RenderAllCameraSensors #
     concat (map (\<lambda>i. [GetCameraImage i IMAGE_DEPTH, GetCameraImage i IMAGE_SEGMENTATION])
                 [0..<num_envs self])"

definition save_sample :: "datagen \<Rightarrow> nat \<Rightarrow> real list list \<Rightarrow> nat \<Rightarrow> event list" where
  \<comment> \<open>the body of the loop that saves\<close>
  "save_sample self n_step object_poses env_idx =
     (let name = sample_name (FILE_ZERO_PADDING_NUM self) (n_step * num_envs self + env_idx)
      in [SaveArray (data_path (save_dir self) (''image'' @ name)) (DepthImage env_idx),
          SaveArray (data_path (save_dir self) (''mask'' @ name)) (SegMask env_idx),
          SaveArray (data_path (save_dir self) (''pose'' @ name))
                    (PoseVector (object_poses ! env_idx))])"

definition step :: "datagen \<Rightarrow> rng \<Rightarrow> nat \<Rightarrow> nat \<Rightarrow> nat outcome" where
  \<comment> \<open>\<open>k\<close> is the position in the generator's output; the next position is returned.
      \<open>object_poses\<close> has one entry for each environment index.\<close>
  "step self gen k n_step =
     (case reset_env self gen k of
        (Inl e, calls) \<Rightarrow> (Inl e, calls)
      | (Inr (reset_object_poses, k'), calls) \<Rightarrow>
          (let object_poses = pose_type_conversion reset_object_poses;
               engine = [Simulate, FetchResults, StepGraphics, DrawViewer];
               capture = get_camera_image self;
               export = (if save_results self
                         then MakeDirs (save_dir self @ ''/data'') #
                              concat (map (save_sample self n_step object_poses)
                                          [0..<num_envs self])
                         else [])
           in (Inr k', calls @ engine @ capture @ export)))"

section \<open>Iteration driver\<close>

fun run_iters :: "datagen \<Rightarrow> rng \<Rightarrow> nat list \<Rightarrow> nat \<Rightarrow> nat outcome" where
  \<comment> \<open>\<^verbatim>\<open>for i in range(env.num_iters): env.step(i)\<close>\<close>
  "run_iters env gen [] k = (Inr k, [])"
| "run_iters env gen (i # rest) k =
     (case step env gen k i of
        (Inl e, calls) \<Rightarrow> (Inl e, calls)
      | (Inr k', calls) \<Rightarrow>
          (case run_iters env gen rest k' of (res, later) \<Rightarrow> (res, calls @ later)))"

definition module_names :: "string list" where
  \<comment> \<open>the names bound at module level when the statement after the constructor
      call is reached; \<^verbatim>\<open>config_file\<close> is not a built-in name either\<close>
  "module_names = [''os'', ''time'', ''yaml'', ''gymapi'', ''gymutil'', ''np'', ''torch'',
                   ''R'', ''plt'', ''DataGenEnv'', ''env'']"

definition lookup_name :: "string \<Rightarrow> error + unit" where
  "lookup_name name = (if name \<in> set module_names then Inr () else Inl (NameError name))"

definition main ::
  "datagen \<Rightarrow> real list \<Rightarrow> 'm list \<Rightarrow> ('m \<Rightarrow> transform) \<Rightarrow> (nat \<Rightarrow> nat) \<Rightarrow> rng
     \<Rightarrow> nat outcome" where
  \<comment> \<open>The script: build the generator, open the file named by \<^verbatim>\<open>config_file\<close>,
      run the iterations.\<close>
  "main cfg stable_prob stable_poses as_transform igen gen =
     (case DataGenEnv cfg stable_prob stable_poses as_transform igen of
        (Inl e, calls) \<Rightarrow> (Inl e, calls)
      | (Inr (env, _), calls) \<Rightarrow>
          (case lookup_name ''config_file'' of
             Inl e \<Rightarrow> (Inl e, calls)
           | Inr _ \<Rightarrow>
               (case run_iters env gen [0..<num_iters env] 0 of
                  (res, later) \<Rightarrow> (res, calls @ later))))"

definition saved_paths :: "event list \<Rightarrow> string list" where
  \<comment> \<open>the files written, in order\<close>
  "saved_paths calls = concat (map (\<lambda>c. case c of SaveArray path a \<Rightarrow> [path] | _ \<Rightarrow> []) calls)"

definition sample_triple :: "string \<Rightarrow> nat \<Rightarrow> nat \<Rightarrow> string list" where
  \<comment> \<open>the three files of the sample with global index \<open>g\<close>\<close>
  "sample_triple dir width g =
     [data_path dir (''image'' @ sample_name width g),
      data_path dir (''mask'' @ sample_name width g),
      data_path dir (''pose'' @ sample_name width g)]"

definition written_poses :: "event list \<Rightarrow> transform list" where
  \<comment> \<open>the transforms written to the objects, in order\<close>
  "written_poses calls =
     concat (map (\<lambda>c. case c of SetRigidTransform env t \<Rightarrow> [t] | _ \<Rightarrow> []) calls)"

section \<open>Concrete inputs\<close>

definition origin_pose :: transform where
  "origin_pose = \<lparr>t_p = \<lparr>vx = 0, vy = 0, vz = 0\<rparr>, t_r = quat_identity\<rparr>"

definition symmetric_pose :: transform where
  \<comment> \<open>a canonical pose whose quaternion scalar is the single-precision number
      nearest to 0.000685\<close>
  "symmetric_pose = \<lparr>t_p = \<lparr>vx = 0, vy = 0, vz = 0\<rparr>,
                     t_r = \<lparr>qx = 0, qy = 0, qz = 0, qw = 5884105 / 2 ^ 33\<rparr>\<rparr>"

definition late_gen :: rng where
  \<comment> \<open>unit samples 0.1, 0.1, 0.1, 0.9, 0.1, \<dots>\<close>
  "late_gen k = (if k = 3 then 9 / 10 else 1 / 10)"

definition example_cfg :: datagen where
  "example_cfg =
     \<lparr>num_envs = 1, num_iters = 2, save_results = True, headless = True,
      FILE_ZERO_PADDING_NUM = 5, object_rand_pose_range = 1 / 10,
      min_stable_pose_prob = 1 / 100, max_num_stable_pose = 10,
      camera_matrix = \<lparr>fx = 1000, fy = 1000, cx = 320, cy = 240\<rparr>,
      save_dir = ''src/E2'',
      object_stable_prob = [], object_stable_poses = [],
      envs = [], cur_object_stable_poses = []\<rparr>"

definition example_env :: datagen where
  \<comment> \<open>the generator object after one environment has been built on \<open>origin_pose\<close>\<close>
  "example_env = example_cfg\<lparr>object_stable_prob := [1], object_stable_poses := [origin_pose],
                             envs := [0], cur_object_stable_poses := [origin_pose]\<rparr>"

definition zivid_cam :: intrinsics where
  "zivid_cam = \<lparr>fx = 1000, fy = 1000, cx = 320, cy = 240\<rparr>"

definition fractional_cam :: intrinsics where
  "fractional_cam = \<lparr>fx = 1000, fy = 1000, cx = 320.3, cy = 240.4\<rparr>"

definition zero_igen :: "nat \<Rightarrow> nat" where
  \<comment> \<open>raw integer samples 0, 0, \<dots>\<close>
  "zero_igen k = 0"

section \<open>The catalog filter as the specification words it\<close>

definition claimed_filter_catalog ::
  "real \<Rightarrow> int \<Rightarrow> real list \<Rightarrow> 'm list \<Rightarrow> real list \<times> 'm list" where
  \<comment> \<open>entries below the minimum are dropped, an entry equal to it is kept\<close>
  "claimed_filter_catalog min_p max_n prob poses =
     (let kept = take (nat max_n) (filter (\<lambda>pr. \<not> pr < min_p) prob)
      in (map (\<lambda>pr. pr / sum_list kept) kept, take (length kept) poses))"

section \<open>Reading a padded index back\<close>

definition digit_val :: "char \<Rightarrow> nat" where
  "digit_val c = of_char c - 48"

definition nat_of_digits :: "string \<Rightarrow> nat" where
  \<comment> \<open>the number that a string of decimal digits denotes\<close>
  "nat_of_digits s = foldl (\<lambda>a c. 10 * a + digit_val c) 0 s"

section \<open>What the pose randomizer and the export are expected to produce\<close>

text \<open>
  The position in the generator's output before environment \<open>e\<close> is handled, when the
  pass over the environments starts at \<open>k\<close>; the draws made for environment \<open>e\<close>; the
  position at which iteration \<open>n\<close> starts.
\<close>

definition rigid_writes :: "event list \<Rightarrow> (nat \<times> transform) list" where
  \<comment> \<open>the transforms written, each with the environment it is written to\<close>
  "rigid_writes calls =
     concat (map (\<lambda>c. case c of SetRigidTransform env t \<Rightarrow> [(env, t)] | _ \<Rightarrow> []) calls)"

primrec draw_start :: "datagen \<Rightarrow> rng \<Rightarrow> nat \<Rightarrow> nat \<Rightarrow> nat" where
  "draw_start self gen k 0 = k"
| "draw_start self gen k (Suc e) =
     snd (reset_pose (object_rand_pose_range self) (cur_object_stable_poses self ! e) gen
            (draw_start self gen k e))"

definition env_pose :: "datagen \<Rightarrow> rng \<Rightarrow> nat \<Rightarrow> nat \<Rightarrow> transform" where
  "env_pose self gen k e =
     fst (reset_pose (object_rand_pose_range self) (cur_object_stable_poses self ! e) gen
            (draw_start self gen k e))"

definition env_p_random :: "datagen \<Rightarrow> rng \<Rightarrow> nat \<Rightarrow> nat \<Rightarrow> vec3" where
  "env_p_random self gen k e =
     fst (draw_p_random (object_rand_pose_range self) gen (draw_start self gen k e))"

definition env_yaw :: "datagen \<Rightarrow> rng \<Rightarrow> nat \<Rightarrow> nat \<Rightarrow> real" where
  "env_yaw self gen k e =
     fst (draw_yaw (t_r (cur_object_stable_poses self ! e)) gen (draw_start self gen k e + 2))"

definition saved_arrays :: "event list \<Rightarrow> (string \<times> artifact) list" where
  \<comment> \<open>the files written, each with the array stored in it\<close>
  "saved_arrays calls =
     concat (map (\<lambda>c. case c of SaveArray path a \<Rightarrow> [(path, a)] | _ \<Rightarrow> []) calls)"

definition sample_arrays ::
  "datagen \<Rightarrow> nat \<Rightarrow> nat \<Rightarrow> transform \<Rightarrow> (string \<times> artifact) list" where
  \<comment> \<open>the sample of iteration \<open>n\<close> and environment \<open>e\<close> whose object pose is \<open>t\<close>: the depth
      image, the mask and the pose vector, each under its name\<close>
  "sample_arrays self n e t =
     [(data_path (save_dir self)
         (''image'' @ sample_name (FILE_ZERO_PADDING_NUM self) (n * num_envs self + e)),
       DepthImage e),
      (data_path (save_dir self)
         (''mask'' @ sample_name (FILE_ZERO_PADDING_NUM self) (n * num_envs self + e)),
       SegMask e),
      (data_path (save_dir self)
         (''pose'' @ sample_name (FILE_ZERO_PADDING_NUM self) (n * num_envs self + e)),
       PoseVector [vx (t_p t), vy (t_p t), vz (t_p t),
                   qx (t_r t), qy (t_r t), qz (t_r t), qw (t_r t)])]"

primrec iter_start :: "datagen \<Rightarrow> rng \<Rightarrow> nat \<Rightarrow> nat \<Rightarrow> nat" where
  "iter_start self gen k 0 = k"
| "iter_start self gen k (Suc n) =
     draw_start self gen (iter_start self gen k n) (num_envs self)"

section \<open>Properties of the pose randomizer\<close>

lemma rotate_yaw_vz: "vz (quat_rotate (from_euler_z yaw) v) = vz v"
  by (simp add: quat_rotate_def from_euler_z_def cross_def Let_def)

lemma draw_p_random_vz: "vz (fst (draw_p_random rand_range gen k)) = 0.0021"
  by (simp add: draw_p_random_def)

lemma written_poses_append [simp]:
  "written_poses (xs @ ys) = written_poses xs @ written_poses ys"
  by (simp add: written_poses_def)

lemma saved_paths_append [simp]:
  "saved_paths (xs @ ys) = saved_paths xs @ saved_paths ys"
  by (simp add: saved_paths_def)

lemma reset_pose_vz:
  "vz (t_p (fst (reset_pose rand_range t_stable gen k))) = vz (t_p t_stable) + 0.0021"
  by (simp add: reset_pose_def compose_def Let_def split_def vec3_add_def rotate_yaw_vz
      draw_p_random_vz)

lemma reset_env_loop_ok:
  assumes "\<forall>i \<in> set idxs. i < length (envs self) \<and> i < length (cur_object_stable_poses self)"
  shows "\<exists>ts k' calls. reset_env_loop self gen idxs k = (Inr (ts, k'), calls)
           \<and> map (\<lambda>t. vz (t_p t)) ts
               = map (\<lambda>i. vz (t_p (cur_object_stable_poses self ! i)) + 0.0021) idxs
           \<and> length ts = length idxs
           \<and> written_poses calls = ts
           \<and> saved_paths calls = []"
  using assms
proof (induction idxs arbitrary: k)
  case Nil
  then show ?case by (simp add: written_poses_def saved_paths_def)
next
  case (Cons i idxs)
  obtain t k1 where r: "reset_pose (object_rand_pose_range self)
                          (cur_object_stable_poses self ! i) gen k = (t, k1)"
    by (cases "reset_pose (object_rand_pose_range self) (cur_object_stable_poses self ! i) gen k")
  from Cons.prems
  have "\<forall>i \<in> set idxs. i < length (envs self) \<and> i < length (cur_object_stable_poses self)"
    by simp
  from Cons.IH[OF this, of k1] obtain ts k' calls where
    ih: "reset_env_loop self gen idxs k1 = (Inr (ts, k'), calls)"
        "map (\<lambda>t. vz (t_p t)) ts
               = map (\<lambda>i. vz (t_p (cur_object_stable_poses self ! i)) + 0.0021) idxs"
        "length ts = length idxs"
        "written_poses calls = ts" "saved_paths calls = []"
    by blast
  have tz: "vz (t_p t) = vz (t_p (cur_object_stable_poses self ! i)) + 0.0021"
    using reset_pose_vz[of "object_rand_pose_range self" "cur_object_stable_poses self ! i" gen k] r
    by simp
  from Cons.prems have b: "i < length (envs self)" "i < length (cur_object_stable_poses self)"
    by simp_all
  show ?case
    using r ih tz b by (simp add: get_item_def written_poses_def saved_paths_def)
qed

lemma reset_env_ok:
  assumes "length (envs self) = num_envs self"
    and "length (cur_object_stable_poses self) = num_envs self"
  shows "\<exists>poses k' calls. reset_env self gen k = (Inr (poses, k'), calls)
           \<and> map (\<lambda>t. vz (t_p t)) poses
               = map (\<lambda>t. vz (t_p t) + 0.0021) (cur_object_stable_poses self)
           \<and> length poses = num_envs self
           \<and> written_poses calls = poses
           \<and> saved_paths calls = []"
proof -
  have "\<forall>i \<in> set [0..<num_envs self].
          i < length (envs self) \<and> i < length (cur_object_stable_poses self)"
    using assms by simp
  from reset_env_loop_ok[OF this, of gen k] obtain ts k' calls where
    l: "reset_env_loop self gen [0..<num_envs self] k = (Inr (ts, k'), calls)"
       "map (\<lambda>t. vz (t_p t)) ts
          = map (\<lambda>i. vz (t_p (cur_object_stable_poses self ! i)) + 0.0021) [0..<num_envs self]"
       "length ts = length [0..<num_envs self]"
       "written_poses calls = ts" "saved_paths calls = []"
    by blast
  have "map (\<lambda>i. vz (t_p (cur_object_stable_poses self ! i)) + 0.0021) [0..<num_envs self]
          = map (\<lambda>t. vz (t_p t) + 0.0021) (cur_object_stable_poses self)"
    using assms(2) by (intro nth_equalityI) simp_all
  moreover have "written_poses [ClearLines] = []" "saved_paths [ClearLines] = []"
    "written_poses [] = []" "saved_paths [] = []"
    by (simp_all add: written_poses_def saved_paths_def)
  ultimately show ?thesis
    using l by (simp add: reset_env_def)
qed

text \<open>
  C10. In every iteration and for every environment, the height of the position written
  to the object is the height of the environment's canonical position plus 0.0021: the
  random rotation is a yaw about the vertical axis and the random offset has the fixed
  height 0.0021.
\<close>

theorem object_height:
  assumes "length (envs self) = num_envs self"
    and "length (cur_object_stable_poses self) = num_envs self"
  shows "\<exists>poses k' calls. reset_env self gen k = (Inr (poses, k'), calls)
           \<and> written_poses calls = poses
           \<and> map (\<lambda>t. vz (t_p t)) poses
               = map (\<lambda>t. vz (t_p t) + 0.0021) (cur_object_stable_poses self)"
  using reset_env_ok[OF assms, of gen k] by blast

theorem object_height_witness:
  "\<exists>poses k' calls. reset_env example_env late_gen 0 = (Inr (poses, k'), calls)
     \<and> written_poses calls = poses
     \<and> map (\<lambda>t. vz (t_p t)) poses = [0.0021]"
  using object_height[of example_env late_gen 0]
  by (simp add: example_env_def example_cfg_def origin_pose_def)

section \<open>Properties of the catalog filter\<close>


lemma bool_index_map: "bool_index xs (map P xs) = filter P xs"
  by (induction xs) (simp_all add: bool_index_def)

lemma filter_descending:
  "sorted_wrt (\<lambda>a b. b \<le> a) xs \<Longrightarrow> filter (\<lambda>pr. c < pr) xs = takeWhile (\<lambda>pr. c < pr) (xs::real list)"
proof (induction xs)
  case Nil
  then show ?case by simp
next
  case (Cons x xs)
  show ?case
  proof (cases "c < x")
    case True
    with Cons show ?thesis by simp
  next
    case False
    with Cons.prems have "\<forall>y \<in> set xs. \<not> c < y" by auto
    then have "filter (\<lambda>pr. c < pr) xs = []" by (simp add: filter_empty_conv)
    with False show ?thesis by simp
  qed
qed

lemma sum_list_divide: "sum_list (map (\<lambda>pr. pr / c) xs) = sum_list xs / (c::real)"
  by (induction xs) (simp_all add: add_divide_distrib)

lemma sum_list_positive:
  "xs \<noteq> [] \<Longrightarrow> \<forall>x \<in> set xs. 0 < x \<Longrightarrow> 0 < sum_list (xs::real list)"
proof (induction xs)
  case Nil
  then show ?case by simp
next
  case (Cons x xs)
  then show ?case by (cases xs) (auto intro: add_pos_pos)
qed

lemma kept_nonneg_stop:
  "0 \<le> stop \<Longrightarrow>
   slice_to (bool_index prob (map (\<lambda>pr. pr > c) prob)) stop
     = take (nat stop) (filter (\<lambda>pr. c < pr) prob)"
  by (simp add: slice_to_def bool_index_map)

lemma filter_catalog_eq:
  assumes "0 \<le> max_n"
  shows "filter_catalog min_p max_n prob poses =
     (map (\<lambda>pr. pr / sum_list (take (nat max_n) (filter (\<lambda>pr. min_p < pr) prob)))
          (take (nat max_n) (filter (\<lambda>pr. min_p < pr) prob)),
      take (length (take (nat max_n) (filter (\<lambda>pr. min_p < pr) prob))) poses)"
  using assms by (simp add: filter_catalog_def bool_index_map Let_def slice_to_def)

lemma kept_prefix:
  assumes "sorted_wrt (\<lambda>a b. b \<le> a) prob"
  shows "take m (filter (\<lambda>pr. c < pr) prob)
           = take (length (take m (filter (\<lambda>pr. c < pr) prob))) (prob::real list)"
proof -
  have "filter (\<lambda>pr. c < pr) prob = take (length (takeWhile (\<lambda>pr. c < pr) prob)) prob"
    using filter_descending[OF assms] takeWhile_eq_take[of "\<lambda>pr. c < pr" prob] by simp
  then obtain j where j: "filter (\<lambda>pr. c < pr) prob = take j prob" by blast
  show ?thesis unfolding j by (simp add: min_def)
qed


text \<open>
  C6. For a catalog as the stable-pose files give it (two arrays of the same length,
  probabilities in descending order), a minimum probability and a maximum size that are
  not negative: if filtering keeps an entry, the kept probabilities sum to 1, the kept
  poses and the kept probabilities have the same positive length, at most the maximum
  size, and position \<open>i\<close> of both arrays comes from position \<open>i\<close> of the input.
\<close>

theorem catalog_invariant:
  assumes len: "length poses = length prob"
    and desc: "sorted_wrt (\<lambda>a b. b \<le> a) prob"
    and minp: "0 \<le> min_p"
    and maxn: "0 \<le> max_n"
    and ne: "fst (filter_catalog min_p max_n prob poses) \<noteq> []"
  shows "sum_list (fst (filter_catalog min_p max_n prob poses)) = 1
       \<and> length (snd (filter_catalog min_p max_n prob poses))
           = length (fst (filter_catalog min_p max_n prob poses))
       \<and> 0 < length (fst (filter_catalog min_p max_n prob poses))
       \<and> int (length (fst (filter_catalog min_p max_n prob poses))) \<le> max_n
       \<and> (\<forall>i < length (fst (filter_catalog min_p max_n prob poses)).
             snd (filter_catalog min_p max_n prob poses) ! i = poses ! i
           \<and> fst (filter_catalog min_p max_n prob poses) ! i
               = prob ! i / sum_list (take (length (fst (filter_catalog min_p max_n prob poses)))
                                           prob))"
proof -
  define kept where "kept = take (nat max_n) (filter (\<lambda>pr. min_p < pr) prob)"
  have F: "filter_catalog min_p max_n prob poses
             = (map (\<lambda>pr. pr / sum_list kept) kept, take (length kept) poses)"
    unfolding kept_def by (rule filter_catalog_eq[OF maxn])
  from ne F have kne: "kept \<noteq> []" by simp
  have pre: "kept = take (length kept) prob"
    unfolding kept_def by (rule kept_prefix[OF desc])
  have "set kept \<subseteq> set (filter (\<lambda>pr. min_p < pr) prob)"
    unfolding kept_def by (rule set_take_subset)
  then have "\<forall>x \<in> set kept. 0 < x" using minp by auto
  with kne have pos: "0 < sum_list kept" by (rule sum_list_positive)
  have s1: "sum_list (map (\<lambda>pr. pr / sum_list kept) kept) = 1"
    using pos by (simp add: sum_list_divide)
  have "length kept \<le> length (filter (\<lambda>pr. min_p < pr) prob)"
    unfolding kept_def by simp
  also have "\<dots> \<le> length prob" by (rule length_filter_le)
  finally have kl: "length kept \<le> length poses" using len by simp
  have km: "int (length kept) \<le> max_n"
    unfolding kept_def using maxn by simp
  have nth: "\<forall>i < length kept. take (length kept) poses ! i = poses ! i
               \<and> map (\<lambda>pr. pr / sum_list kept) kept ! i
                   = prob ! i / sum_list (take (length kept) prob)"
  proof (intro allI impI)
    fix i assume i: "i < length kept"
    have "kept ! i = take (length kept) prob ! i" using pre by simp
    then have "kept ! i = prob ! i" using i by simp
    then show "take (length kept) poses ! i = poses ! i
               \<and> map (\<lambda>pr. pr / sum_list kept) kept ! i
                   = prob ! i / sum_list (take (length kept) prob)"
      using i pre by simp
  qed
  show ?thesis
    unfolding F using s1 kl km kne nth by (simp add: min_def)
qed

theorem catalog_invariant_witness:
  "length [0, 1, 2 :: nat] = length [3 / 5, 3 / 10, 1 / 10 :: real]
   \<and> sorted_wrt (\<lambda>a b. b \<le> a) [3 / 5, 3 / 10, 1 / 10 :: real]
   \<and> fst (filter_catalog (1 / 5) 5 [3 / 5, 3 / 10, 1 / 10] [0, 1, 2 :: nat]) \<noteq> []
   \<and> sum_list (fst (filter_catalog (1 / 5) 5 [3 / 5, 3 / 10, 1 / 10] [0, 1, 2 :: nat])) = 1
   \<and> fst (filter_catalog (1 / 5) 5 [3 / 5, 3 / 10, 1 / 10] [0, 1, 2 :: nat]) = [2 / 3, 1 / 3]
   \<and> snd (filter_catalog (1 / 5) 5 [3 / 5, 3 / 10, 1 / 10] [0, 1, 2 :: nat]) = [0, 1]"
  using catalog_invariant[of "[0, 1, 2 :: nat]" "[3 / 5, 3 / 10, 1 / 10]" "1 / 5" 5]
  by (simp add: filter_catalog_def bool_index_def slice_to_def)

text \<open>
  C7. For a maximum size that is not negative, the filter keeps exactly the entries
  whose probability is greater than the minimum (an entry equal to the minimum is
  dropped), then keeps the first \<open>max_num_stable_pose\<close> of them, then divides by their
  sum; the pose array is cut to the number of kept probabilities.
\<close>

theorem catalog_filter:
  assumes "0 \<le> max_n"
  shows "filter_catalog min_p max_n prob poses =
     (map (\<lambda>pr. pr / sum_list (take (nat max_n) (filter (\<lambda>pr. min_p < pr) prob)))
          (take (nat max_n) (filter (\<lambda>pr. min_p < pr) prob)),
      take (length (take (nat max_n) (filter (\<lambda>pr. min_p < pr) prob))) poses)"
  using assms by (rule filter_catalog_eq)

theorem catalog_filter_witness:
  "filter_catalog (1 / 4) 1 [1 / 2, 1 / 2] [0, 1 :: nat] = ([1], [0])"
  using catalog_filter[of 1 "1 / 4" "[1 / 2, 1 / 2]" "[0, 1 :: nat]"]
  by simp

theorem catalog_filter_counterexample:
  "filter_catalog (3 / 10) 10 [3 / 5, 3 / 10, 1 / 10] [0, 1, 2 :: nat] = ([1], [0])
   \<and> claimed_filter_catalog (3 / 10) 10 [3 / 5, 3 / 10, 1 / 10] [0, 1, 2 :: nat]
       = ([2 / 3, 1 / 3], [0, 1])"
  by (simp add: filter_catalog_def claimed_filter_catalog_def bool_index_def slice_to_def)

text \<open>
  With probabilities that are not in descending order the kept poses are still the
  first ones of the input: here the pose of probability 0.1 is kept with mass 1.
\<close>

lemma catalog_unsorted:
  "filter_catalog (1 / 2) 10 [1 / 10, 9 / 10] [0, 1 :: nat] = ([1], [0])"
  by (simp add: filter_catalog_def bool_index_def slice_to_def)

section \<open>Properties of the camera model\<close>

lemma py_int_bounds:
  "\<bar>real_of_int (py_int x)\<bar> \<le> \<bar>x\<bar> \<and> \<bar>x - real_of_int (py_int x)\<bar> < 1"
proof (cases "0 \<le> x")
  case True
  then have "0 \<le> \<lfloor>x\<rfloor>" by simp
  then show ?thesis using True by (simp add: py_int_def) linarith
next
  case False
  then have "\<lceil>x\<rceil> \<le> 0" by simp
  then show ?thesis using False by (simp add: py_int_def) linarith
qed

lemma py_int_Ints: "x \<in> \<int> \<Longrightarrow> real_of_int (py_int x) = x"
  by (auto simp: py_int_def elim!: Ints_cases)

text \<open>
  C8. The pixel width and height are \<open>2 cx\<close> and \<open>2 cy\<close> with the fraction cut off
  (towards zero), so they equal \<open>2 cx\<close> and \<open>2 cy\<close> when these are whole numbers; the
  horizontal field of view is \<open>2 atan2(cx, fx)\<close> in degrees. For \<open>fx = fy = 1000\<close>,
  \<open>cx = 320\<close>, \<open>cy = 240\<close> the width is 640, the height 480 and the field of view
  \<open>2 atan2(320, 1000)\<close> in degrees.
\<close>

theorem camera_props:
  "\<bar>real_of_int (camera_width m)\<bar> \<le> \<bar>2 * cx m\<bar>
   \<and> \<bar>2 * cx m - real_of_int (camera_width m)\<bar> < 1
   \<and> (2 * cx m \<in> \<int> \<longrightarrow> real_of_int (camera_width m) = 2 * cx m)
   \<and> \<bar>real_of_int (camera_height m)\<bar> \<le> \<bar>2 * cy m\<bar>
   \<and> \<bar>2 * cy m - real_of_int (camera_height m)\<bar> < 1
   \<and> (2 * cy m \<in> \<int> \<longrightarrow> real_of_int (camera_height m) = 2 * cy m)
   \<and> horizontal_fov m = 2 * arctan2 (cx m) (fx m) * 180 / pi
   \<and> camera_width zivid_cam = 640
   \<and> camera_height zivid_cam = 480
   \<and> horizontal_fov zivid_cam = 2 * arctan2 320 1000 * 180 / pi"
proof -
  have w: "camera_width m = py_int (2 * cx m)" and h: "camera_height m = py_int (2 * cy m)"
    by (simp_all add: camera_width_def camera_height_def mult.commute)
  have "camera_width zivid_cam = 640" "camera_height zivid_cam = 480"
    by (simp_all add: camera_width_def camera_height_def zivid_cam_def py_int_def)
  moreover have "horizontal_fov zivid_cam = 2 * arctan2 320 1000 * 180 / pi"
    by (simp add: horizontal_fov_def zivid_cam_def)
  moreover have "horizontal_fov m = 2 * arctan2 (cx m) (fx m) * 180 / pi"
    by (simp add: horizontal_fov_def)
  ultimately show ?thesis
    unfolding w h using py_int_bounds[of "2 * cx m"] py_int_bounds[of "2 * cy m"]
      py_int_Ints[of "2 * cx m"] py_int_Ints[of "2 * cy m"]
    by blast
qed

theorem camera_props_witness:
  "2 * cx zivid_cam \<in> \<int> \<and> 2 * cy zivid_cam \<in> \<int>
   \<and> real_of_int (camera_width zivid_cam) = 2 * cx zivid_cam
   \<and> real_of_int (camera_height zivid_cam) = 2 * cy zivid_cam"
proof -
  have a: "2 * cx zivid_cam \<in> \<int>" "2 * cy zivid_cam \<in> \<int>"
    by (simp_all add: zivid_cam_def)
  with camera_props[of zivid_cam] show ?thesis by blast
qed

theorem camera_width_counterexample:
  "camera_width fractional_cam = 640 \<and> 2 * cx fractional_cam = 640.6
   \<and> real_of_int (camera_width fractional_cam) \<noteq> 2 * cx fractional_cam"
  by (simp add: camera_width_def fractional_cam_def py_int_def)

section \<open>Properties of scene construction and of the driver\<close>

lemma randint_ok: "0 < n \<Longrightarrow> randint n raw = Inr (raw mod n)"
  by (simp add: randint_def)

lemma index_mass_uniform:
  assumes "i < n"
  shows "index_mass n i = 1 / real n"
proof -
  have "filter (\<lambda>raw. randint n raw = Inr i) [0..<n] = filter (\<lambda>raw. raw = i) [0..<n]"
    using assms by (intro filter_cong) (auto simp: randint_def)
  moreover have "length (filter (\<lambda>raw. raw = i) [0..<n]) = card ({x. x = i} \<inter> set [0..<n])"
    by (rule distinct_length_filter) simp
  moreover have "{x. x = i} \<inter> set [0..<n] = {i}"
    using assms by auto
  ultimately show ?thesis by (simp add: index_mass_def)
qed

lemma create_envs_loop_ok:
  assumes "object_stable_poses self \<noteq> []"
  shows "\<exists>calls. create_envs_loop igen idxs self k =
           (Inr (self\<lparr>envs := envs self @ idxs,
                      cur_object_stable_poses := cur_object_stable_poses self @
                        map (\<lambda>j. object_stable_poses self !
                                   (igen (k + j) mod length (object_stable_poses self)))
                            [0..<length idxs]\<rparr>,
                 k + length idxs), calls)"
  using assms
proof (induction idxs arbitrary: self k)
  case Nil
  then show ?case by simp
next
  case (Cons i idxs)
  let ?n = "length (object_stable_poses self)"
  let ?pose = "object_stable_poses self ! (igen k mod ?n)"
  let ?self' = "self\<lparr>envs := envs self @ [i],
                      cur_object_stable_poses := cur_object_stable_poses self @ [?pose]\<rparr>"
  have n: "0 < ?n" using Cons.prems by simp
  have "object_stable_poses ?self' \<noteq> []" using Cons.prems by simp
  from Cons.IH[OF this, of "k + 1"] obtain calls where
    ih: "create_envs_loop igen idxs ?self' (k + 1) =
           (Inr (?self'\<lparr>envs := envs ?self' @ idxs,
                      cur_object_stable_poses := cur_object_stable_poses ?self' @
                        map (\<lambda>j. object_stable_poses ?self' !
                                   (igen (k + 1 + j) mod length (object_stable_poses ?self')))
                            [0..<length idxs]\<rparr>,
                 k + 1 + length idxs), calls)"
    by blast
  have m: "map (\<lambda>j. object_stable_poses self ! (igen (k + j) mod ?n)) [0..<length (i # idxs)]
           = ?pose # map (\<lambda>j. object_stable_poses self ! (igen (k + 1 + j) mod ?n)) [0..<length idxs]"
    by (simp add: map_upt_Suc del: upt_Suc)
  show ?case
    using ih n unfolding m by (simp add: randint_def Let_def)
qed

lemma create_envs_loop_empty:
  assumes "object_stable_poses self = []"
  shows "create_envs_loop igen (i # idxs) self k = (Inl ValueError, [CreateEnv i])"
  using assms by (simp add: randint_def)


lemma filter_catalog_fst_empty:
  "fst (filter_catalog min_p max_n prob poses) = [] \<Longrightarrow>
   snd (filter_catalog min_p max_n prob poses) = []"
  by (simp add: filter_catalog_def Let_def slice_to_def)

text \<open>
  C1. When the filtered catalog is not empty, scene construction succeeds and makes
  exactly one draw for each environment: environment \<open>e\<close> gets the catalog pose at the
  index of draw \<open>e\<close>. The draw selects every index of the filtered catalog with the same
  probability, one over the catalog's length; the renormalised probabilities are stored
  and not read by the draw.
\<close>

theorem catalog_draw:
  assumes "snd (filter_catalog (min_stable_pose_prob cfg) (max_num_stable_pose cfg) sp ps) \<noteq> []"
  shows "\<exists>env calls. DataGenEnv cfg sp ps conv igen = (Inr (env, num_envs cfg), calls)
           \<and> object_stable_poses env =
               map conv (snd (filter_catalog (min_stable_pose_prob cfg)
                                (max_num_stable_pose cfg) sp ps))
           \<and> cur_object_stable_poses env =
               map (\<lambda>e. object_stable_poses env !
                           (igen e mod length (object_stable_poses env)))
                   [0..<num_envs cfg]
           \<and> (\<forall>i < length (object_stable_poses env).
                 index_mass (length (object_stable_poses env)) i
                   = 1 / real (length (object_stable_poses env)))"
proof -
  obtain prob poses where F:
    "filter_catalog (min_stable_pose_prob cfg) (max_num_stable_pose cfg) sp ps = (prob, poses)"
    by (cases "filter_catalog (min_stable_pose_prob cfg) (max_num_stable_pose cfg) sp ps")
  let ?self1 = "cfg\<lparr>envs := [], object_stable_prob := prob,
                     object_stable_poses := map conv poses,
                     cur_object_stable_poses := []\<rparr>"
  have ne: "object_stable_poses ?self1 \<noteq> []" using assms F by simp
  from create_envs_loop_ok[OF ne, of igen "[0..<num_envs cfg]" 0] obtain calls where
    l: "create_envs_loop igen [0..<num_envs cfg] ?self1 0 =
          (Inr (?self1\<lparr>envs := envs ?self1 @ [0..<num_envs cfg],
                      cur_object_stable_poses := cur_object_stable_poses ?self1 @
                        map (\<lambda>j. object_stable_poses ?self1 !
                                   (igen (0 + j) mod length (object_stable_poses ?self1)))
                            [0..<length [0..<num_envs cfg]]\<rparr>,
                 0 + length [0..<num_envs cfg]), calls)"
    by blast
  have "DataGenEnv cfg sp ps conv igen = create_envs_loop igen [0..<num_envs cfg] ?self1 0"
    by (simp add: DataGenEnv_def create_envs_def F)
  with l show ?thesis
    using F by (simp add: index_mass_uniform)
qed

theorem catalog_draw_witness:
  "snd (filter_catalog (min_stable_pose_prob example_cfg) (max_num_stable_pose example_cfg)
          [3 / 4, 1 / 4] [origin_pose, symmetric_pose]) \<noteq> []
   \<and> (\<exists>env calls.
         DataGenEnv example_cfg [3 / 4, 1 / 4] [origin_pose, symmetric_pose] (\<lambda>t. t) zero_igen
           = (Inr (env, 1), calls)
         \<and> cur_object_stable_poses env = [origin_pose]
         \<and> index_mass (length (object_stable_poses env)) 1 = 1 / 2)"
proof -
  have F: "filter_catalog (min_stable_pose_prob example_cfg) (max_num_stable_pose example_cfg)
             [3 / 4, 1 / 4] [origin_pose, symmetric_pose]
           = ([3 / 4, 1 / 4], [origin_pose, symmetric_pose])"
    by (simp add: filter_catalog_def bool_index_def slice_to_def example_cfg_def)
  then have ne: "snd (filter_catalog (min_stable_pose_prob example_cfg)
                   (max_num_stable_pose example_cfg)
                   [3 / 4, 1 / 4] [origin_pose, symmetric_pose]) \<noteq> []"
    by simp
  have n: "num_envs example_cfg = 1" by (simp add: example_cfg_def)
  from catalog_draw[OF ne, of "\<lambda>t. t" zero_igen] show ?thesis
    unfolding F n by (auto simp: zero_igen_def)
qed

theorem catalog_draw_counterexample:
  "fst (filter_catalog (1 / 100) 10 [3 / 4, 1 / 4] [origin_pose, symmetric_pose])
     = [3 / 4, 1 / 4]
   \<and> index_mass (length (snd (filter_catalog (1 / 100) 10 [3 / 4, 1 / 4]
                                  [origin_pose, symmetric_pose]))) 0 = 1 / 2
   \<and> index_mass (length (snd (filter_catalog (1 / 100) 10 [3 / 4, 1 / 4]
                                  [origin_pose, symmetric_pose]))) 0
       \<noteq> fst (filter_catalog (1 / 100) 10 [3 / 4, 1 / 4] [origin_pose, symmetric_pose]) ! 0"
proof -
  have F: "filter_catalog (1 / 100) 10 [3 / 4, 1 / 4] [origin_pose, symmetric_pose]
           = ([3 / 4, 1 / 4], [origin_pose, symmetric_pose])"
    by (simp add: filter_catalog_def bool_index_def slice_to_def)
  have m: "index_mass (length [origin_pose, symmetric_pose]) 0 = 1 / 2"
    using index_mass_uniform[of 0 "length [origin_pose, symmetric_pose]"] by simp
  show ?thesis unfolding F fst_conv snd_conv m by simp
qed

text \<open>
  C4. When the catalog is empty after filtering and at least one environment is
  requested, construction fails with the error of the pose draw. The engine environment
  of index 0 has been created by then; no actor, no camera and no further environment
  is created.
\<close>

theorem empty_catalog_fails:
  assumes "fst (filter_catalog (min_stable_pose_prob cfg) (max_num_stable_pose cfg) sp ps) = []"
    and "0 < num_envs cfg"
  shows "DataGenEnv cfg sp ps conv igen = (Inl ValueError, [CreateEnv 0])"
proof -
  obtain prob poses where F:
    "filter_catalog (min_stable_pose_prob cfg) (max_num_stable_pose cfg) sp ps = (prob, poses)"
    by (cases "filter_catalog (min_stable_pose_prob cfg) (max_num_stable_pose cfg) sp ps")
  with assms(1) filter_catalog_fst_empty[OF assms(1)] have e: "prob = []" "poses = []"
    by simp_all
  from assms(2) have u: "[0..<num_envs cfg] = 0 # [1..<num_envs cfg]"
    by (simp add: upt_conv_Cons)
  show ?thesis
    by (simp add: DataGenEnv_def create_envs_def F e u randint_def)
qed

theorem empty_catalog_fails_witness:
  "fst (filter_catalog (min_stable_pose_prob example_cfg) (max_num_stable_pose example_cfg)
          [] ([] :: transform list)) = []
   \<and> 0 < num_envs example_cfg
   \<and> DataGenEnv example_cfg [] [] (\<lambda>t. t) zero_igen = (Inl ValueError, [CreateEnv 0])"
proof -
  have a: "fst (filter_catalog (min_stable_pose_prob example_cfg)
                  (max_num_stable_pose example_cfg) [] ([] :: transform list)) = []"
    by (simp add: filter_catalog_def bool_index_def slice_to_def example_cfg_def)
  have b: "0 < num_envs example_cfg" by (simp add: example_cfg_def)
  from empty_catalog_fails[OF a b, of "\<lambda>t. t" zero_igen] a b show ?thesis by blast
qed

theorem empty_catalog_counterexample:
  "fst (filter_catalog (1 / 100) 10 [1 / 1000] [origin_pose]) = []
   \<and> DataGenEnv example_cfg [1 / 1000] [origin_pose] (\<lambda>t. t) zero_igen
       = (Inl ValueError, [CreateEnv 0])
   \<and> DataGenEnv (example_cfg\<lparr>num_envs := 0\<rparr>) [1 / 1000] [origin_pose] (\<lambda>t. t) zero_igen
       = (Inr (example_cfg\<lparr>num_envs := 0\<rparr>, 0), [])"
  by (simp add: DataGenEnv_def create_envs_def filter_catalog_def bool_index_def slice_to_def
      example_cfg_def randint_def)

lemma main_raises:
  "main cfg sp ps conv igen gen =
     (case DataGenEnv cfg sp ps conv igen of
        (Inl e, calls) \<Rightarrow> (Inl e, calls)
      | (Inr r, calls) \<Rightarrow> (Inl (NameError ''config_file''), calls))"
  by (simp add: main_def lookup_name_def module_names_def split: prod.splits sum.splits)

text \<open>
  C3. The driver should run \<open>num_iters\<close> iterations. The script reads the name
  \<^verbatim>\<open>config_file\<close> between building the generator and the loop; the name is bound
  only inside \<^verbatim>\<open>__init__\<close>, so the script stops there with a name error. With one
  environment and two iterations configured, the calls made are those of scene
  construction only: no iteration runs.
\<close>

theorem main_stops_before_loop:
  "main example_cfg [1] [origin_pose] (\<lambda>t. t) zero_igen late_gen
     = (Inl (NameError ''config_file''),
        [CreateEnv 0, CreateActor 0 origin_pose, SetSegmentationId 0,
         CreateCameraSensor 0 640 480 (horizontal_fov (camera_matrix example_cfg)),
         SetCameraTransform 0])
   \<and> num_iters example_cfg = 2"
  by (simp add: main_raises DataGenEnv_def create_envs_def filter_catalog_def bool_index_def
      slice_to_def example_cfg_def randint_def zero_igen_def camera_width_def
      camera_height_def py_int_def)

section \<open>Properties of capture and export\<close>

lemma digit_val_digit_char: "d < 10 \<Longrightarrow> digit_val (digit_char d) = d"
  by (simp add: digit_val_def digit_char_def)

lemma nat_of_digits_snoc: "nat_of_digits (s @ [c]) = 10 * nat_of_digits s + digit_val c"
  by (simp add: nat_of_digits_def)

lemma nat_of_digits_str_nat: "nat_of_digits (str_nat n) = n"
proof (induction n rule: str_nat.induct)
  case (1 n)
  show ?case
  proof (cases "n < 10")
    case True
    then show ?thesis
      by (subst str_nat.simps) (simp add: nat_of_digits_def digit_val_digit_char)
  next
    case False
    with 1 have "nat_of_digits (str_nat (n div 10)) = n div 10" by simp
    with False show ?thesis
      by (subst str_nat.simps) (simp add: nat_of_digits_snoc digit_val_digit_char)
  qed
qed

lemma nat_of_digits_zeros: "nat_of_digits (replicate m CHR ''0'' @ s) = nat_of_digits s"
proof -
  have "foldl (\<lambda>a c. 10 * a + digit_val c) 0 (replicate m CHR ''0'') = 0"
    by (induction m) (simp_all add: digit_val_def)
  then show ?thesis by (simp add: nat_of_digits_def)
qed

lemma nat_of_digits_format: "nat_of_digits (format_0d width n) = n"
  by (simp add: format_0d_def nat_of_digits_zeros nat_of_digits_str_nat)

lemma length_format: "length (format_0d width n) = max width (length (str_nat n))"
  by (simp add: format_0d_def)

lemma format_inj: "format_0d width m = format_0d width n \<Longrightarrow> m = n"
  using nat_of_digits_format by metis

lemma global_indices:
  "concat (map (\<lambda>n. map (\<lambda>e. n * N + e) [0..<N]) [0..<I]) = [0..<I * N]"
proof (induction I)
  case 0
  then show ?case by simp
next
  case (Suc I)
  have f: "(\<lambda>e. I * N + e) = (\<lambda>e. e + I * N)" by (simp add: fun_eq_iff)
  have a: "map (\<lambda>e. I * N + e) [0..<N] = [I * N..<N + I * N]"
    unfolding f by (rule map_add_upt)
  have b: "[0..<I * N + N] = [0..<I * N] @ [I * N..<I * N + N]"
    by (rule upt_add_eq_append) simp
  have c: "Suc I * N = I * N + N" by simp
  have d: "N + I * N = I * N + N" by simp
  have "concat (map (\<lambda>n. map (\<lambda>e. n * N + e) [0..<N]) [0..<Suc I])
          = concat (map (\<lambda>n. map (\<lambda>e. n * N + e) [0..<N]) [0..<I]) @ map (\<lambda>e. I * N + e) [0..<N]"
    by simp
  also have "\<dots> = [0..<I * N] @ [I * N..<I * N + N]"
    unfolding Suc a d by (rule refl)
  also have "\<dots> = [0..<Suc I * N]"
    unfolding c b by (rule refl)
  finally show ?case .
qed

lemma saved_paths_save_sample:
  "saved_paths (save_sample self n ps e)
     = sample_triple (save_dir self) (FILE_ZERO_PADDING_NUM self) (n * num_envs self + e)"
  by (simp add: saved_paths_def save_sample_def sample_triple_def Let_def)

lemma saved_paths_concat:
  "saved_paths (concat xss) = concat (map saved_paths xss)"
  by (induction xss) (simp_all add: saved_paths_def)

lemma saved_paths_Cons:
  "saved_paths (c # calls) = (case c of SaveArray path a \<Rightarrow> [path] | _ \<Rightarrow> []) @ saved_paths calls"
  by (simp add: saved_paths_def)

lemma saved_paths_Nil: "saved_paths [] = []"
  by (simp add: saved_paths_def)

lemma saved_paths_camera_reads:
  "saved_paths (concat (map (\<lambda>i. [GetCameraImage i IMAGE_DEPTH,
                                     GetCameraImage i IMAGE_SEGMENTATION]) xs)) = []"
  by (induction xs) (simp_all add: saved_paths_Nil saved_paths_Cons)

lemma saved_paths_get_camera_image: "saved_paths (get_camera_image self) = []"
  unfolding get_camera_image_def saved_paths_Cons saved_paths_camera_reads by simp

lemma saved_paths_export:
  "saved_paths (concat (map (save_sample self n ps) idxs))
     = concat (map (\<lambda>e. sample_triple (save_dir self) (FILE_ZERO_PADDING_NUM self)
                            (n * num_envs self + e)) idxs)"
  by (induction idxs)
     (simp_all add: saved_paths_Nil saved_paths_save_sample)

lemma step_ok:
  assumes "length (envs self) = num_envs self"
    and "length (cur_object_stable_poses self) = num_envs self"
  shows "\<exists>k' calls. step self gen k n = (Inr k', calls)
           \<and> saved_paths calls =
               (if save_results self
                then concat (map (\<lambda>e. sample_triple (save_dir self) (FILE_ZERO_PADDING_NUM self)
                                         (n * num_envs self + e)) [0..<num_envs self])
                else [])"
proof -
  from reset_env_ok[OF assms, of gen k] obtain poses k' calls where
    r: "reset_env self gen k = (Inr (poses, k'), calls)" and s: "saved_paths calls = []"
    by blast
  show ?thesis
  proof (cases "save_results self")
    case True
    then show ?thesis
      using r s
      by (simp add: step_def Let_def saved_paths_get_camera_image saved_paths_export
          saved_paths_Cons del: upt_Suc)
  next
    case False
    then show ?thesis
      using r s
      by (simp add: step_def Let_def saved_paths_get_camera_image saved_paths_Nil
          saved_paths_Cons)
  qed
qed

lemma run_iters_ok:
  assumes "length (envs self) = num_envs self"
    and "length (cur_object_stable_poses self) = num_envs self"
    and "save_results self"
  shows "\<exists>k' calls. run_iters self gen ns k = (Inr k', calls)
           \<and> saved_paths calls =
               concat (map (\<lambda>g. sample_triple (save_dir self) (FILE_ZERO_PADDING_NUM self) g)
                        (concat (map (\<lambda>n. map (\<lambda>e. n * num_envs self + e) [0..<num_envs self])
                                     ns)))"
proof (induction ns arbitrary: k)
  case Nil
  then show ?case by (simp add: saved_paths_Nil)
next
  case (Cons n ns)
  from step_ok[OF assms(1,2), of gen k n] assms(3) obtain k1 calls1 where
    s: "step self gen k n = (Inr k1, calls1)"
       "saved_paths calls1 =
          concat (map (\<lambda>e. sample_triple (save_dir self) (FILE_ZERO_PADDING_NUM self)
                               (n * num_envs self + e)) [0..<num_envs self])"
    by auto
  from Cons.IH[of k1] obtain k' calls where
    ih: "run_iters self gen ns k1 = (Inr k', calls)"
        "saved_paths calls =
               concat (map (\<lambda>g. sample_triple (save_dir self) (FILE_ZERO_PADDING_NUM self) g)
                        (concat (map (\<lambda>n. map (\<lambda>e. n * num_envs self + e) [0..<num_envs self])
                                     ns)))"
    by blast
  show ?case using s ih by (simp add: comp_def)
qed

lemma sample_name_inj: "sample_name width m = sample_name width n \<Longrightarrow> m = n"
  by (simp add: sample_name_def format_inj)

lemma triple_disjoint:
  "m \<noteq> n \<Longrightarrow> set (sample_triple dir width m) \<inter> set (sample_triple dir width n) = {}"
  using sample_name_inj[of width m n] by (auto simp: sample_triple_def data_path_def)

lemma triple_distinct: "distinct (sample_triple dir width g)"
  by (simp add: sample_triple_def data_path_def)

lemma triples_distinct: "distinct (concat (map (sample_triple dir width) [0..<M]))"
proof (induction M)
  case 0
  then show ?case by simp
next
  case (Suc M)
  have "\<forall>g \<in> set [0..<M]. set (sample_triple dir width g) \<inter> set (sample_triple dir width M) = {}"
    using triple_disjoint[of _ M dir width] by simp
  then show ?case using Suc triple_distinct[of dir width M] by auto
qed


section \<open>Further properties\<close>


text \<open>
  A generator object that construction returns has one handle and one canonical pose
  for each environment: the scene is built in the sense the theorems above assume.
\<close>

lemma create_envs_loop_lengths:
  "create_envs_loop igen idxs self k = (Inr (self', k'), calls) \<Longrightarrow>
     length (envs self') = length (envs self) + length idxs
   \<and> length (cur_object_stable_poses self')
       = length (cur_object_stable_poses self) + length idxs
   \<and> num_envs self' = num_envs self"
proof (induction idxs arbitrary: self k calls)
  case Nil
  then show ?case by simp
next
  case (Cons i idxs)
  show ?case
  proof (cases "object_stable_poses self = []")
    case True
    with Cons.prems show ?thesis by (simp add: randint_def)
  next
    case False
    from create_envs_loop_ok[OF False, of igen "i # idxs" k] Cons.prems
    show ?thesis by auto
  qed
qed

lemma DataGenEnv_built:
  assumes "DataGenEnv cfg sp ps conv igen = (Inr (env, k), calls)"
  shows "length (envs env) = num_envs env
       \<and> length (cur_object_stable_poses env) = num_envs env"
proof -
  obtain prob poses where F:
    "filter_catalog (min_stable_pose_prob cfg) (max_num_stable_pose cfg) sp ps = (prob, poses)"
    by (cases "filter_catalog (min_stable_pose_prob cfg) (max_num_stable_pose cfg) sp ps")
  let ?self1 = "cfg\<lparr>envs := [], object_stable_prob := prob,
                     object_stable_poses := map conv poses,
                     cur_object_stable_poses := []\<rparr>"
  from assms have "create_envs_loop igen [0..<num_envs cfg] ?self1 0 = (Inr (env, k), calls)"
    by (simp add: DataGenEnv_def create_envs_def F)
  from create_envs_loop_lengths[OF this] show ?thesis by simp
qed

section \<open>The yaw draw on stored numbers\<close>




text \<open>
  Whatever the comparison gives, the yaw that is used comes from the full-range draw,
  which is the last one made.
\<close>

lemma draw_yaw_second_draw:
  "fst (draw_yaw q_stable gen k) = uniform 0 (2 * pi) (gen (snd (draw_yaw q_stable gen k) - 1))"
  by (simp add: draw_yaw_def)




section \<open>The composed pose\<close>

lemma quat_rotate_yaw:
  "quat_rotate (from_euler_z yaw) v =
     \<lparr>vx = cos yaw * vx v - sin yaw * vy v,
      vy = sin yaw * vx v + cos yaw * vy v,
      vz = vz v\<rparr>"
proof -
  have c: "cos yaw = 1 - 2 * (sin (yaw / 2))\<^sup>2"
    using cos_double_sin[of "yaw / 2"] by simp
  have s: "sin yaw = 2 * sin (yaw / 2) * cos (yaw / 2)"
    using sin_double[of "yaw / 2"] by simp
  show ?thesis
    unfolding c s
    by (simp add: quat_rotate_def from_euler_z_def cross_def Let_def power2_eq_square
        algebra_simps)
qed

lemma quat_mul_yaw:
  "quat_mul (from_euler_z yaw) q =
     \<lparr>qx = cos (yaw / 2) * qx q - sin (yaw / 2) * qy q,
      qy = cos (yaw / 2) * qy q + sin (yaw / 2) * qx q,
      qz = cos (yaw / 2) * qz q + sin (yaw / 2) * qw q,
      qw = cos (yaw / 2) * qw q - sin (yaw / 2) * qz q\<rparr>"
  by (simp add: quat_mul_def from_euler_z_def)

lemma quat_norm_normalize:
  assumes n: "quat_norm q \<noteq> 0"
  shows "quat_norm (quat_normalize q) = 1"
proof -
  define n where "n = quat_norm q"
  have "0 \<le> qx q * qx q + qy q * qy q + qz q * qz q + qw q * qw q"
    by (intro add_nonneg_nonneg) simp_all
  then have sq: "qx q * qx q + qy q * qy q + qz q * qz q + qw q * qw q = n * n"
    unfolding n_def quat_norm_def by simp
  have n0: "n \<noteq> 0" using n by (simp add: n_def)
  have "qx q / n * (qx q / n) + qy q / n * (qy q / n) + qz q / n * (qz q / n)
          + qw q / n * (qw q / n)
        = (qx q * qx q + qy q * qy q + qz q * qz q + qw q * qw q) / (n * n)"
    by (simp add: add_divide_distrib)
  also have "\<dots> = 1" unfolding sq using n0 by simp
  finally have e: "qx q / n * (qx q / n) + qy q / n * (qy q / n) + qz q / n * (qz q / n)
          + qw q / n * (qw q / n) = 1" .
  have "quat_normalize q = \<lparr>qx = qx q / n, qy = qy q / n, qz = qz q / n, qw = qw q / n\<rparr>"
    by (simp add: quat_normalize_def n_def)
  then have "quat_norm (quat_normalize q)
               = sqrt (qx q / n * (qx q / n) + qy q / n * (qy q / n) + qz q / n * (qz q / n)
                        + qw q / n * (qw q / n))"
    by (simp add: quat_norm_def)
  then show ?thesis unfolding e by simp
qed

lemma rotate_mul:
  assumes a: "qx a * qx a + qy a * qy a + qz a * qz a + qw a * qw a = 1"
    and b: "qx b * qx b + qy b * qy b + qz b * qz b + qw b * qw b = 1"
  shows "quat_rotate (quat_mul a b) v = quat_rotate a (quat_rotate b v)"
proof -
  obtain ax ay az aw where A: "a = \<lparr>qx = ax, qy = ay, qz = az, qw = aw\<rparr>" by (cases a) simp
  obtain bx by' bz bw where B: "b = \<lparr>qx = bx, qy = by', qz = bz, qw = bw\<rparr>" by (cases b) simp
  obtain x y z where V: "v = \<lparr>vx = x, vy = y, vz = z\<rparr>" by (cases v) simp
  from a A have a': "ax * ax + ay * ay + az * az + aw * aw = 1" by simp
  from b B have b': "bx * bx + by' * by' + bz * bz + bw * bw = 1" by simp
  show ?thesis
    unfolding A B V
    apply (simp add: quat_rotate_def quat_mul_def cross_def Let_def)
    using a' b' apply (intro conjI)
      apply algebra
     apply algebra
    apply algebra
    done
qed

lemma quat_norm_mul:
  assumes "quat_norm a = 1" and "quat_norm b = 1"
  shows "quat_norm (quat_mul a b) = 1"
proof -
  have sq: "qx q * qx q + qy q * qy q + qz q * qz q + qw q * qw q = 1" if "quat_norm q = 1" for q
    using that unfolding quat_norm_def by (simp add: real_sqrt_eq_1_iff)
  let ?p = "quat_mul a b"
  have "qx ?p * qx ?p + qy ?p * qy ?p + qz ?p * qz ?p + qw ?p * qw ?p
          = (qx a * qx a + qy a * qy a + qz a * qz a + qw a * qw a)
            * (qx b * qx b + qy b * qy b + qz b * qz b + qw b * qw b)"
    by (simp add: quat_mul_def algebra_simps)
  also have "\<dots> = 1" using sq[OF assms(1)] sq[OF assms(2)] by simp
  finally show ?thesis by (simp add: quat_norm_def)
qed

lemma quat_normalize_unit: "quat_norm q = 1 \<Longrightarrow> quat_normalize q = q"
  by (simp add: quat_normalize_def)

lemma quat_norm_yaw: "quat_norm (from_euler_z yaw) = 1"
  by (simp add: quat_norm_def from_euler_z_def flip: power2_eq_square)

lemma rotate_product:
  assumes "quat_norm a = 1" and "quat_norm b = 1"
  shows "quat_rotate (quat_mul a b) v = quat_rotate a (quat_rotate b v)"
proof -
  have sq: "qx q * qx q + qy q * qy q + qz q * qz q + qw q * qw q = 1" if "quat_norm q = 1" for q
    using that unfolding quat_norm_def by (simp add: real_sqrt_eq_1_iff)
  show ?thesis by (rule rotate_mul[OF sq[OF assms(1)] sq[OF assms(2)]])
qed

lemma rigid_writes_append [simp]:
  "rigid_writes (xs @ ys) = rigid_writes xs @ rigid_writes ys"
  by (simp add: rigid_writes_def)

lemma rigid_writes_Cons:
  "rigid_writes (c # calls) =
     (case c of SetRigidTransform env t \<Rightarrow> [(env, t)] | _ \<Rightarrow> []) @ rigid_writes calls"
  by (simp add: rigid_writes_def)

lemma reset_env_loop_poses:
  assumes "n = b - a" and "a \<le> b"
    and "b \<le> length (envs self)" and "b \<le> length (cur_object_stable_poses self)"
  shows "\<exists>calls. reset_env_loop self gen [a..<b] (draw_start self gen k a)
                   = (Inr (map (env_pose self gen k) [a..<b], draw_start self gen k b), calls)
               \<and> rigid_writes calls
                   = map (\<lambda>e. (envs self ! e, env_pose self gen k e)) [a..<b]"
  using assms
proof (induction n arbitrary: a)
  case 0
  then have "a = b" by simp
  then show ?case by (simp add: rigid_writes_def)
next
  case (Suc n)
  then have ab: "a < b" and n: "n = b - Suc a" and sab: "Suc a \<le> b" by simp_all
  from Suc.IH[OF n sab Suc.prems(3,4)] obtain calls where
    ih: "reset_env_loop self gen [Suc a..<b] (draw_start self gen k (Suc a))
           = (Inr (map (env_pose self gen k) [Suc a..<b], draw_start self gen k b), calls)"
        "rigid_writes calls = map (\<lambda>e. (envs self ! e, env_pose self gen k e)) [Suc a..<b]"
    by blast
  have u: "[a..<b] = a # [Suc a..<b]" using ab by (rule upt_conv_Cons)
  have g: "a < length (envs self)" "a < length (cur_object_stable_poses self)"
    using ab Suc.prems(3,4) by simp_all
  have r: "reset_pose (object_rand_pose_range self) (cur_object_stable_poses self ! a) gen
             (draw_start self gen k a) = (env_pose self gen k a, draw_start self gen k (Suc a))"
    by (simp add: env_pose_def)
  show ?case
    unfolding u using g r ih by (simp add: get_item_def rigid_writes_Cons del: draw_start.simps)
qed

lemma reset_env_poses:
  assumes "length (envs self) = num_envs self"
    and "length (cur_object_stable_poses self) = num_envs self"
  shows "\<exists>calls. reset_env self gen k
                   = (Inr (map (env_pose self gen k) [0..<num_envs self],
                           draw_start self gen k (num_envs self)), calls)
               \<and> rigid_writes calls
                   = map (\<lambda>e. (envs self ! e, env_pose self gen k e)) [0..<num_envs self]"
proof -
  have "\<exists>calls. reset_env_loop self gen [0..<num_envs self] (draw_start self gen k 0)
                   = (Inr (map (env_pose self gen k) [0..<num_envs self],
                           draw_start self gen k (num_envs self)), calls)
               \<and> rigid_writes calls
                   = map (\<lambda>e. (envs self ! e, env_pose self gen k e)) [0..<num_envs self]"
    by (rule reset_env_loop_poses[where n = "num_envs self"]) (simp_all add: assms)
  then obtain calls where
    l: "reset_env_loop self gen [0..<num_envs self] k
          = (Inr (map (env_pose self gen k) [0..<num_envs self],
                  draw_start self gen k (num_envs self)), calls)"
       "rigid_writes calls = map (\<lambda>e. (envs self ! e, env_pose self gen k e)) [0..<num_envs self]"
    by auto
  have "rigid_writes [ClearLines] = []" "rigid_writes [] = []"
    by (simp_all add: rigid_writes_def)
  then show ?thesis using l by (simp add: reset_env_def)
qed

lemma env_pose_compose:
  "env_pose self gen k e =
     \<lparr>t_p = vec3_add (quat_rotate (from_euler_z (env_yaw self gen k e))
                                  (t_p (cur_object_stable_poses self ! e)))
                     (env_p_random self gen k e),
      t_r = quat_normalize (quat_mul (from_euler_z (env_yaw self gen k e))
                                     (t_r (cur_object_stable_poses self ! e)))\<rparr>"
  by (simp add: env_pose_def env_yaw_def env_p_random_def reset_pose_def compose_def
      draw_p_random_def Let_def split_def)

text \<open>
  C5. On a built scene the pose randomizer returns, and for every environment it
  writes to that environment's object the pose composed from the canonical pose and the
  draws made for the environment: the position is the canonical position rotated by the
  random rotation plus the random offset, the orientation is the normalised product
  with the random rotation on the left. Rotating by the random yaw turns the horizontal
  components by the yaw and keeps the height; the product with a unit canonical
  rotation rotates by the canonical rotation first and by the random yaw second. For a
  canonical pose at the origin with the identity rotation, the offset (1, 0, 0.0021)
  and the identity as random rotation, the pose vector is (1, 0, 0.0021, 0, 0, 0, 1).
\<close>

theorem composed_pose:
  assumes "length (envs self) = num_envs self"
    and "length (cur_object_stable_poses self) = num_envs self"
  shows "(\<exists>calls. reset_env self gen k
                   = (Inr (map (env_pose self gen k) [0..<num_envs self],
                           draw_start self gen k (num_envs self)), calls)
               \<and> rigid_writes calls
                   = map (\<lambda>e. (envs self ! e, env_pose self gen k e)) [0..<num_envs self])
       \<and> (\<forall>e. env_pose self gen k e =
               \<lparr>t_p = vec3_add (quat_rotate (from_euler_z (env_yaw self gen k e))
                                            (t_p (cur_object_stable_poses self ! e)))
                               (env_p_random self gen k e),
                t_r = quat_normalize (quat_mul (from_euler_z (env_yaw self gen k e))
                                               (t_r (cur_object_stable_poses self ! e)))\<rparr>)
       \<and> (\<forall>yaw v. quat_rotate (from_euler_z yaw) v =
               \<lparr>vx = cos yaw * vx v - sin yaw * vy v,
                vy = sin yaw * vx v + cos yaw * vy v,
                vz = vz v\<rparr>)
       \<and> (\<forall>a b. vec3_add a b = \<lparr>vx = vx a + vx b, vy = vy a + vy b, vz = vz a + vz b\<rparr>)
       \<and> (\<forall>yaw q. quat_mul (from_euler_z yaw) q =
               \<lparr>qx = cos (yaw / 2) * qx q - sin (yaw / 2) * qy q,
                qy = cos (yaw / 2) * qy q + sin (yaw / 2) * qx q,
                qz = cos (yaw / 2) * qz q + sin (yaw / 2) * qw q,
                qw = cos (yaw / 2) * qw q - sin (yaw / 2) * qz q\<rparr>)
       \<and> (\<forall>a b v. quat_norm a = 1 \<longrightarrow> quat_norm b = 1 \<longrightarrow>
               quat_rotate (quat_mul a b) v = quat_rotate a (quat_rotate b v))
       \<and> (\<forall>q. quat_norm q \<noteq> 0 \<longrightarrow> quat_norm (quat_normalize q) = 1)
       \<and> (\<forall>e. quat_norm (t_r (cur_object_stable_poses self ! e)) = 1 \<longrightarrow>
               t_r (env_pose self gen k e)
                 = quat_mul (from_euler_z (env_yaw self gen k e))
                            (t_r (cur_object_stable_poses self ! e)))
       \<and> pose_type_conversion1
            (compose \<lparr>vx = 0, vy = 0, vz = 0\<rparr> quat_identity
                     \<lparr>vx = 1, vy = 0, vz = 0.0021\<rparr> quat_identity)
          = [1, 0, 0.0021, 0, 0, 0, 1]
       \<and> pose_type_conversion1
            (compose \<lparr>vx = 1, vy = 2, vz = 3\<rparr> \<lparr>qx = 1, qy = 0, qz = 0, qw = 0\<rparr>
                     \<lparr>vx = 0, vy = 0, vz = 0.0021\<rparr> (from_euler_z pi))
          = [- 1, - 2, 3.0021, 0, 1, 0, 0]"
proof -
  have unit: "t_r (env_pose self gen k e)
                 = quat_mul (from_euler_z (env_yaw self gen k e))
                            (t_r (cur_object_stable_poses self ! e))"
    if "quat_norm (t_r (cur_object_stable_poses self ! e)) = 1" for e
    using quat_normalize_unit[OF quat_norm_mul[OF quat_norm_yaw that]]
    by (simp add: env_pose_compose)
  have ex1: "pose_type_conversion1
            (compose \<lparr>vx = 0, vy = 0, vz = 0\<rparr> quat_identity
                     \<lparr>vx = 1, vy = 0, vz = 0.0021\<rparr> quat_identity)
          = [1, 0, 0.0021, 0, 0, 0, 1]"
    by (simp add: compose_def Let_def pose_type_conversion1_def quat_identity_def
        quat_rotate_def cross_def vec3_add_def quat_normalize_def quat_mul_def quat_norm_def)
  have ex2: "pose_type_conversion1
            (compose \<lparr>vx = 1, vy = 2, vz = 3\<rparr> \<lparr>qx = 1, qy = 0, qz = 0, qw = 0\<rparr>
                     \<lparr>vx = 0, vy = 0, vz = 0.0021\<rparr> (from_euler_z pi))
          = [- 1, - 2, 3.0021, 0, 1, 0, 0]"
    by (simp add: compose_def Let_def pose_type_conversion1_def quat_rotate_yaw quat_mul_yaw
        vec3_add_def quat_normalize_def quat_norm_def)
  show ?thesis
    using reset_env_poses[OF assms, of gen k] env_pose_compose quat_rotate_yaw quat_mul_yaw
      rotate_product quat_norm_normalize unit ex1 ex2
    by (simp add: vec3_add_def)
qed

theorem composed_pose_witness:
  "length (envs example_env) = num_envs example_env
   \<and> length (cur_object_stable_poses example_env) = num_envs example_env
   \<and> (\<exists>calls. reset_env example_env late_gen 0
                  = (Inr ([env_pose example_env late_gen 0 0], 3), calls)
              \<and> rigid_writes calls = [(0, env_pose example_env late_gen 0 0)])
   \<and> t_p (env_pose example_env late_gen 0 0) = \<lparr>vx = - 0.08, vy = - 0.08, vz = 0.0021\<rparr>"
proof -
  have a: "length (envs example_env) = num_envs example_env"
    "length (cur_object_stable_poses example_env) = num_envs example_env"
    by (simp_all add: example_env_def example_cfg_def)
  have n: "num_envs example_env = 1" "envs example_env ! 0 = 0"
    "cur_object_stable_poses example_env ! 0 = origin_pose"
    "object_rand_pose_range example_env = 1 / 10"
    by (simp_all add: example_env_def example_cfg_def)
  have d: "draw_start example_env late_gen 0 1 = 3"
    by (simp add: n reset_pose_def draw_p_random_def draw_yaw_def Let_def split_def
        origin_pose_def quat_identity_def sentinel_a_def sentinel_b_def)
  have p: "env_p_random example_env late_gen 0 0 = \<lparr>vx = - 0.08, vy = - 0.08, vz = 0.0021\<rparr>"
    by (simp add: env_p_random_def n draw_p_random_def uniform_def late_gen_def)
  from composed_pose[OF a, of late_gen 0] have
    r: "\<exists>calls. reset_env example_env late_gen 0
                   = (Inr (map (env_pose example_env late_gen 0) [0..<num_envs example_env],
                           draw_start example_env late_gen 0 (num_envs example_env)), calls)
               \<and> rigid_writes calls
                   = map (\<lambda>e. (envs example_env ! e, env_pose example_env late_gen 0 e))
                         [0..<num_envs example_env]"
    and c: "env_pose example_env late_gen 0 0 =
               \<lparr>t_p = vec3_add (quat_rotate (from_euler_z (env_yaw example_env late_gen 0 0))
                                            (t_p (cur_object_stable_poses example_env ! 0)))
                               (env_p_random example_env late_gen 0 0),
                t_r = quat_normalize (quat_mul (from_euler_z (env_yaw example_env late_gen 0 0))
                                               (t_r (cur_object_stable_poses example_env ! 0)))\<rparr>"
    by blast+
  have t: "t_p (env_pose example_env late_gen 0 0) = \<lparr>vx = - 0.08, vy = - 0.08, vz = 0.0021\<rparr>"
    unfolding c by (simp add: n p origin_pose_def quat_rotate_yaw vec3_add_def)
  from r have "\<exists>calls. reset_env example_env late_gen 0
                  = (Inr ([env_pose example_env late_gen 0 0], 3), calls)
              \<and> rigid_writes calls = [(0, env_pose example_env late_gen 0 0)]"
    unfolding n d by (simp add: n)
  with a t show ?thesis by blast
qed

section \<open>The exported samples\<close>

lemma saved_arrays_append [simp]:
  "saved_arrays (xs @ ys) = saved_arrays xs @ saved_arrays ys"
  by (simp add: saved_arrays_def)

lemma saved_arrays_Nil: "saved_arrays [] = []"
  by (simp add: saved_arrays_def)

lemma saved_arrays_Cons:
  "saved_arrays (c # calls) =
     (case c of SaveArray path a \<Rightarrow> [(path, a)] | _ \<Rightarrow> []) @ saved_arrays calls"
  by (simp add: saved_arrays_def)

lemma saved_paths_arrays: "saved_paths calls = map fst (saved_arrays calls)"
proof (induction calls)
  case Nil
  then show ?case by (simp add: saved_paths_def saved_arrays_def)
next
  case (Cons c calls)
  then show ?case by (cases c) (simp_all add: saved_paths_Cons saved_arrays_Cons)
qed

lemma saved_arrays_camera_reads:
  "saved_arrays (concat (map (\<lambda>i. [GetCameraImage i IMAGE_DEPTH,
                                      GetCameraImage i IMAGE_SEGMENTATION]) xs)) = []"
  by (induction xs) (simp_all add: saved_arrays_Nil saved_arrays_Cons)

lemma saved_arrays_get_camera_image: "saved_arrays (get_camera_image self) = []"
  unfolding get_camera_image_def saved_arrays_Cons saved_arrays_camera_reads by simp

lemma saved_arrays_none: "saved_paths calls = [] \<Longrightarrow> saved_arrays calls = []"
  by (simp add: saved_paths_arrays)

lemma saved_arrays_save_sample:
  assumes "e < length poses"
  shows "saved_arrays (save_sample self n (pose_type_conversion poses) e)
           = sample_arrays self n e (poses ! e)"
  using assms
  by (simp add: save_sample_def sample_arrays_def saved_arrays_def Let_def
      pose_type_conversion_def pose_type_conversion1_def)

lemma saved_arrays_samples:
  assumes "\<forall>e \<in> set idxs. e < length poses"
  shows "saved_arrays (concat (map (save_sample self n (pose_type_conversion poses)) idxs))
           = concat (map (\<lambda>e. sample_arrays self n e (poses ! e)) idxs)"
  using assms by (induction idxs) (simp_all add: saved_arrays_Nil saved_arrays_save_sample)


lemma step_arrays:
  assumes "length (envs self) = num_envs self"
    and "length (cur_object_stable_poses self) = num_envs self"
    and "save_results self"
  shows "\<exists>calls. step self gen k n = (Inr (draw_start self gen k (num_envs self)), calls)
           \<and> saved_arrays calls =
               concat (map (\<lambda>e. sample_arrays self n e (env_pose self gen k e))
                           [0..<num_envs self])"
proof -
  from reset_env_poses[OF assms(1,2), of gen k] obtain calls where
    r: "reset_env self gen k
          = (Inr (map (env_pose self gen k) [0..<num_envs self],
                  draw_start self gen k (num_envs self)), calls)"
    by blast
  from reset_env_ok[OF assms(1,2), of gen k] r have "saved_paths calls = []" by auto
  then have s: "saved_arrays calls = []" by (rule saved_arrays_none)
  have "\<forall>e \<in> set [0..<num_envs self]. e < length (map (env_pose self gen k) [0..<num_envs self])"
    by simp
  from saved_arrays_samples[OF this, of self n]
  have x: "saved_arrays (concat (map (save_sample self n
               (pose_type_conversion (map (env_pose self gen k) [0..<num_envs self])))
               [0..<num_envs self]))
           = concat (map (\<lambda>e. sample_arrays self n e
                                 (map (env_pose self gen k) [0..<num_envs self] ! e))
                         [0..<num_envs self])" .
  have y: "concat (map (\<lambda>e. sample_arrays self n e
                                 (map (env_pose self gen k) [0..<num_envs self] ! e))
                         [0..<num_envs self])
           = concat (map (\<lambda>e. sample_arrays self n e (env_pose self gen k e))
                         [0..<num_envs self])"
    by (rule arg_cong[where f = concat], rule map_cong) simp_all
  show ?thesis
    using r s assms(3) x y
    by (simp add: step_def Let_def saved_arrays_get_camera_image saved_arrays_Cons
        del: upt_Suc)
qed

lemma run_iters_arrays:
  assumes "m = b - a" and "a \<le> b"
    and "length (envs self) = num_envs self"
    and "length (cur_object_stable_poses self) = num_envs self"
    and "save_results self"
  shows "\<exists>calls. run_iters self gen [a..<b] (iter_start self gen k a)
                   = (Inr (iter_start self gen k b), calls)
           \<and> saved_arrays calls =
               concat (map (\<lambda>n. concat (map (\<lambda>e. sample_arrays self n e
                                                  (env_pose self gen (iter_start self gen k n) e))
                                             [0..<num_envs self]))
                           [a..<b])"
  using assms(1,2)
proof (induction m arbitrary: a)
  case 0
  then have "a = b" by simp
  then show ?case by (simp add: saved_arrays_Nil)
next
  case (Suc m)
  then have ab: "a < b" and m: "m = b - Suc a" and sab: "Suc a \<le> b" by simp_all
  from Suc.IH[OF m sab] obtain calls where
    ih: "run_iters self gen [Suc a..<b] (iter_start self gen k (Suc a))
           = (Inr (iter_start self gen k b), calls)"
        "saved_arrays calls =
               concat (map (\<lambda>n. concat (map (\<lambda>e. sample_arrays self n e
                                                  (env_pose self gen (iter_start self gen k n) e))
                                             [0..<num_envs self]))
                           [Suc a..<b])"
    by blast
  from step_arrays[OF assms(3,4,5), of gen "iter_start self gen k a" a] obtain calls1 where
    s: "step self gen (iter_start self gen k a) a
          = (Inr (iter_start self gen k (Suc a)), calls1)"
       "saved_arrays calls1 =
               concat (map (\<lambda>e. sample_arrays self a e
                                   (env_pose self gen (iter_start self gen k a) e))
                           [0..<num_envs self])"
    by auto
  have u: "[a..<b] = a # [Suc a..<b]" using ab by (rule upt_conv_Cons)
  show ?case
    unfolding u using s ih by (simp del: iter_start.simps)
qed

text \<open>
  C9. With saving enabled, on a built scene, iteration \<open>n\<close> writes for every environment
  \<open>e\<close> three files: the depth image of environment \<open>e\<close> under the name image, its mask
  under the name mask and the pose vector of the pose written to its object in this
  iteration under the name pose, each name ending in the global index
  \<open>n * num_envs + e\<close> padded with zeros to the configured width (the digits read back as
  the index, and the length is the width unless the index needs more digits). The loop
  over \<open>num_iters\<close> iterations returns and writes the triples of the global indices
  \<open>0, \<dots>, num_iters * num_envs - 1\<close> in this order, all file names distinct.
\<close>

theorem exported_files:
  assumes "length (envs self) = num_envs self"
    and "length (cur_object_stable_poses self) = num_envs self"
    and "save_results self"
  shows "\<exists>k' calls. run_iters self gen [0..<num_iters self] k = (Inr k', calls)
           \<and> saved_arrays calls =
               concat (map (\<lambda>n. concat (map (\<lambda>e. sample_arrays self n e
                                                  (env_pose self gen (iter_start self gen k n) e))
                                             [0..<num_envs self]))
                           [0..<num_iters self])
           \<and> saved_paths calls = map fst (saved_arrays calls)
           \<and> saved_paths calls =
               concat (map (sample_triple (save_dir self) (FILE_ZERO_PADDING_NUM self))
                           [0..<num_iters self * num_envs self])
           \<and> distinct (saved_paths calls)
           \<and> (\<forall>n k1. saved_arrays (snd (step self gen k1 n)) =
                 concat (map (\<lambda>e. sample_arrays self n e (env_pose self gen k1 e))
                             [0..<num_envs self]))
           \<and> (\<forall>n k1. saved_paths (snd (step self gen k1 n)) =
                 concat (map (\<lambda>e. sample_triple (save_dir self) (FILE_ZERO_PADDING_NUM self)
                                      (n * num_envs self + e)) [0..<num_envs self]))
           \<and> (\<forall>g. nat_of_digits (format_0d (FILE_ZERO_PADDING_NUM self) g) = g
                  \<and> length (format_0d (FILE_ZERO_PADDING_NUM self) g)
                      = max (FILE_ZERO_PADDING_NUM self) (length (str_nat g)))"
proof -
  have "\<exists>calls. run_iters self gen [0..<num_iters self] (iter_start self gen k 0)
                   = (Inr (iter_start self gen k (num_iters self)), calls)
           \<and> saved_arrays calls =
               concat (map (\<lambda>n. concat (map (\<lambda>e. sample_arrays self n e
                                                  (env_pose self gen (iter_start self gen k n) e))
                                             [0..<num_envs self]))
                           [0..<num_iters self])"
    by (rule run_iters_arrays[where m = "num_iters self"]) (simp_all add: assms)
  then obtain calls where
    r: "run_iters self gen [0..<num_iters self] k = (Inr (iter_start self gen k (num_iters self)), calls)"
    and a: "saved_arrays calls =
               concat (map (\<lambda>n. concat (map (\<lambda>e. sample_arrays self n e
                                                  (env_pose self gen (iter_start self gen k n) e))
                                             [0..<num_envs self]))
                           [0..<num_iters self])"
    by auto
  from run_iters_ok[OF assms, of gen "[0..<num_iters self]" k] r
  have "saved_paths calls =
          concat (map (\<lambda>g. sample_triple (save_dir self) (FILE_ZERO_PADDING_NUM self) g)
             (concat (map (\<lambda>n. map (\<lambda>e. n * num_envs self + e) [0..<num_envs self])
                          [0..<num_iters self])))"
    by auto
  then have p: "saved_paths calls =
             concat (map (sample_triple (save_dir self) (FILE_ZERO_PADDING_NUM self))
                         [0..<num_iters self * num_envs self])"
    unfolding global_indices .
  have d: "distinct (saved_paths calls)"
    unfolding p by (rule triples_distinct)
  have sa: "saved_arrays (snd (step self gen k1 n)) =
                 concat (map (\<lambda>e. sample_arrays self n e (env_pose self gen k1 e))
                             [0..<num_envs self])" for n k1
    using step_arrays[OF assms, of gen k1 n] by auto
  have sp: "saved_paths (snd (step self gen k1 n)) =
             concat (map (\<lambda>e. sample_triple (save_dir self) (FILE_ZERO_PADDING_NUM self)
                                  (n * num_envs self + e)) [0..<num_envs self])" for n k1
    using step_ok[OF assms(1,2), of gen k1 n] assms(3) by auto
  from r a p d sa sp show ?thesis
    using nat_of_digits_format length_format saved_paths_arrays by blast
qed


theorem exported_files_witness:
  "length (envs example_env) = num_envs example_env
   \<and> length (cur_object_stable_poses example_env) = num_envs example_env
   \<and> save_results example_env
   \<and> (\<exists>k' calls. run_iters example_env late_gen [0..<num_iters example_env] 0 = (Inr k', calls)
         \<and> saved_paths calls =
             [''src/E2/data/image_00000.npy'', ''src/E2/data/mask_00000.npy'',
              ''src/E2/data/pose_00000.npy'', ''src/E2/data/image_00001.npy'',
              ''src/E2/data/mask_00001.npy'', ''src/E2/data/pose_00001.npy'']
         \<and> saved_arrays calls =
             sample_arrays example_env 0 0 (env_pose example_env late_gen 0 0) @
             sample_arrays example_env 1 0 (env_pose example_env late_gen 3 0))"
proof -
  have a: "length (envs example_env) = num_envs example_env"
    "length (cur_object_stable_poses example_env) = num_envs example_env"
    "save_results example_env"
    by (simp_all add: example_env_def example_cfg_def)
  have z: "format_0d 5 0 = ''00000''" "format_0d 5 (Suc 0) = ''00001''"
    by code_simp+
  have u: "[0..<2] = [0, 1::nat]" by code_simp
  have n: "num_envs example_env = 1" "num_iters example_env = 2"
    "cur_object_stable_poses example_env ! 0 = origin_pose"
    by (simp_all add: example_env_def example_cfg_def)
  have c: "concat (map (sample_triple (save_dir example_env) (FILE_ZERO_PADDING_NUM example_env))
                       [0..<num_iters example_env * num_envs example_env])
           = [''src/E2/data/image_00000.npy'', ''src/E2/data/mask_00000.npy'',
              ''src/E2/data/pose_00000.npy'', ''src/E2/data/image_00001.npy'',
              ''src/E2/data/mask_00001.npy'', ''src/E2/data/pose_00001.npy'']"
    by (simp add: example_env_def example_cfg_def u sample_triple_def sample_name_def
        data_path_def z)
  have i: "iter_start example_env late_gen 0 (Suc 0) = 3"
    by (simp add: n reset_pose_def draw_p_random_def draw_yaw_def Let_def split_def
        origin_pose_def quat_identity_def sentinel_a_def sentinel_b_def)
  have s: "concat (map (\<lambda>n. concat (map (\<lambda>e. sample_arrays example_env n e
                           (env_pose example_env late_gen (iter_start example_env late_gen 0 n) e))
                                      [0..<num_envs example_env]))
                    [0..<num_iters example_env])
           = sample_arrays example_env 0 0 (env_pose example_env late_gen 0 0) @
             sample_arrays example_env 1 0 (env_pose example_env late_gen 3 0)"
    unfolding n u using i by simp
  from exported_files[OF a, of late_gen 0] show ?thesis
    unfolding c s using a by blast
qed

end
